theory Spec2Isabelle
  imports Complex_Main
begin

section \<open>Strings as the download route sees them\<close>

text \<open>
  The route is TypeScript; its strings are sequences of code units. The embedding uses
  \<open>string\<close> (lists of 8-bit characters) for the code units below 256, which covers
  every literal the route compares against. Case mapping and white space follow
  ECMAScript on that range.
\<close>

definition isSpace :: "char \<Rightarrow> bool" where
  "isSpace c = (c = CHR 0x09 \<or> c = CHR 0x0A \<or> c = CHR 0x0B \<or> c = CHR 0x0C \<or> c = CHR 0x0D
                \<or> c = CHR 0x20 \<or> c = CHR 0xA0)"

definition trim :: "string \<Rightarrow> string" where
  "trim s = rev (dropWhile isSpace (rev (dropWhile isSpace s)))"

text \<open>Case mapping by table: the ASCII letters, and the Latin-1 letters whose other
  case is again below 256.\<close>

definition asciiUpper :: string where
  "asciiUpper = ''ABCDEFGHIJKLMNOPQRSTUVWXYZ''"

definition asciiLower :: string where
  "asciiLower = ''abcdefghijklmnopqrstuvwxyz''"

definition latin1Upper :: string where
  "latin1Upper = [CHR 0xC0, CHR 0xC1, CHR 0xC2, CHR 0xC3, CHR 0xC4, CHR 0xC5, CHR 0xC6, CHR 0xC7,
                  CHR 0xC8, CHR 0xC9, CHR 0xCA, CHR 0xCB, CHR 0xCC, CHR 0xCD, CHR 0xCE, CHR 0xCF,
                  CHR 0xD0, CHR 0xD1, CHR 0xD2, CHR 0xD3, CHR 0xD4, CHR 0xD5, CHR 0xD6,
                  CHR 0xD8, CHR 0xD9, CHR 0xDA, CHR 0xDB, CHR 0xDC, CHR 0xDD, CHR 0xDE]"

definition latin1Lower :: string where
  "latin1Lower = [CHR 0xE0, CHR 0xE1, CHR 0xE2, CHR 0xE3, CHR 0xE4, CHR 0xE5, CHR 0xE6, CHR 0xE7,
                  CHR 0xE8, CHR 0xE9, CHR 0xEA, CHR 0xEB, CHR 0xEC, CHR 0xED, CHR 0xEE, CHR 0xEF,
                  CHR 0xF0, CHR 0xF1, CHR 0xF2, CHR 0xF3, CHR 0xF4, CHR 0xF5, CHR 0xF6,
                  CHR 0xF8, CHR 0xF9, CHR 0xFA, CHR 0xFB, CHR 0xFC, CHR 0xFD, CHR 0xFE]"

fun translate :: "string \<Rightarrow> string \<Rightarrow> char \<Rightarrow> char" where
  "translate (a # as) (b # bs) c = (if c = a then b else translate as bs c)"
| "translate _ _ c = c"

definition toLowerChar :: "char \<Rightarrow> char" where
  "toLowerChar c = translate (asciiUpper @ latin1Upper) (asciiLower @ latin1Lower) c"

definition toLowerCase :: "string \<Rightarrow> string" where
  "toLowerCase s = map toLowerChar s"

fun startsWith :: "string \<Rightarrow> string \<Rightarrow> bool" where
  "startsWith s [] = True"
| "startsWith [] (p # ps) = False"
| "startsWith (c # cs) (p # ps) = (if c = p then startsWith cs ps else False)"

definition endsWith :: "string \<Rightarrow> string \<Rightarrow> bool" where
  "endsWith s p = (length p \<le> length s \<and> drop (length s - length p) s = p)"

section \<open>The shared cache\<close>

text \<open>
  \<open>db.getCache\<close> and \<open>db.setCache\<close> come from \<open>@/lib/db\<close>, which is outside the
  sources. The cache is a map from keys to a value and the time-to-live it was stored
  with; an expired or unknown key reads as \<open>None\<close>. Either call may throw, which the
  flag \<open>available\<close> decides.
\<close>

record proxy_ctx =
  ctxReferer :: "string option"
  ctxUserAgent :: "string option"
  ctxOrigin :: "string option"
  ctxCookie :: "string option"
  ctxAuthorization :: "string option"
  allowImageSegments :: bool
  allowEncryptedImageSegments :: bool

datatype cache_value = VNum int | VObj proxy_ctx

record db =
  store :: "string \<rightharpoonup> (cache_value \<times> nat)"
  available :: bool

datatype db_error = CacheUnavailable

definition getCache :: "db \<Rightarrow> string \<Rightarrow> db_error + cache_value option" where
  "getCache d k = (if available d then Inr (map_option fst (store d k)) else Inl CacheUnavailable)"

definition setCache :: "db \<Rightarrow> string \<Rightarrow> cache_value \<Rightarrow> nat \<Rightarrow> db_error + db" where
  "setCache d k v ttl =
     (if available d then Inr (d\<lparr>store := (store d)(k \<mapsto> (v, ttl))\<rparr>) else Inl CacheUnavailable)"

section \<open>Quota manager\<close>

text \<open>
  \<open>toNumber(rawCount, 0)\<close> followed by \<open>Math.floor\<close> and \<open>Math.max(0, _)\<close>: a missing
  entry and an object both count as 0. Counters are whole numbers, so the floor is the
  identity on them.
\<close>

definition currentCountOf :: "cache_value option \<Rightarrow> int" where
  "currentCountOf raw = max 0 (case raw of Some (VNum n) \<Rightarrow> n | _ \<Rightarrow> 0)"

datatype quota_reason = QuotaExhausted

record quota_options =
  username :: string
  limitEnabled :: bool
  limitPerDay :: int
  checkOnly :: bool

text \<open>What the route reads from the clock: \<open>formatDateKey(now)\<close> and the seconds to the
  next local midnight before \<open>Math.max(1, _)\<close>.\<close>

record clock =
  dateKey :: string
  secondsToMidnight :: int

record quota_result =
  allowed :: bool
  remaining :: "int option"
  reason :: "quota_reason option"
  cacheKey :: "string option"
  expireSeconds :: "nat option"

definition secondsUntilNextDay :: "clock \<Rightarrow> nat" where
  "secondsUntilNextDay now = nat (max 1 (secondsToMidnight now))"

definition quotaCacheKey :: "string \<Rightarrow> clock \<Rightarrow> string" where
  "quotaCacheKey user now = ''download-limit:'' @ user @ '':'' @ dateKey now"

definition checkAndConsumeQuota :: "quota_options \<Rightarrow> clock \<Rightarrow> db \<Rightarrow> quota_result \<times> db" where
  "checkAndConsumeQuota options now d =
    (if \<not> limitEnabled options then
       (\<lparr>allowed = True, remaining = None, reason = None, cacheKey = None, expireSeconds = None\<rparr>, d)
     else if limitPerDay options \<le> 0 then
       (\<lparr>allowed = False, remaining = Some 0, reason = Some QuotaExhausted,
         cacheKey = None, expireSeconds = None\<rparr>, d)
     else
       let key = quotaCacheKey (username options) now;
           expire = secondsUntilNextDay now;
           failOpen = (\<lparr>allowed = True, remaining = None, reason = None,
                         cacheKey = None, expireSeconds = None\<rparr>, d)
       in case getCache d key of
            Inl _ \<Rightarrow> failOpen
          | Inr rawCount \<Rightarrow>
              let currentCount = currentCountOf rawCount in
              if currentCount \<ge> limitPerDay options then
                (\<lparr>allowed = False, remaining = Some 0, reason = Some QuotaExhausted,
                  cacheKey = None, expireSeconds = None\<rparr>, d)
              else if checkOnly options then
                (\<lparr>allowed = True, remaining = Some (max 0 (limitPerDay options - currentCount)),
                  reason = None, cacheKey = Some key, expireSeconds = Some expire\<rparr>, d)
              else
                let nextCount = currentCount + 1 in
                case setCache d key (VNum nextCount) expire of
                  Inl _ \<Rightarrow> failOpen
                | Inr d' \<Rightarrow>
                    (\<lparr>allowed = True, remaining = Some (max 0 (limitPerDay options - nextCount)),
                      reason = None, cacheKey = Some key, expireSeconds = Some expire\<rparr>, d'))"

text \<open>\<open>refundQuota\<close> is a closure over \<open>limitEnabled\<close> and the result of the consuming
  call; an empty key and a zero expiry are falsy, and a cache error is logged and dropped.\<close>

definition refundQuota :: "bool \<Rightarrow> quota_result \<Rightarrow> db \<Rightarrow> db" where
  "refundQuota enabled quotaResult d =
    (case (cacheKey quotaResult, expireSeconds quotaResult) of
       (Some key, Some expire) \<Rightarrow>
         if \<not> enabled \<or> key = [] \<or> expire = 0 then d
         else (case getCache d key of
                 Inl _ \<Rightarrow> d
               | Inr rawCount \<Rightarrow>
                   let currentCount = currentCountOf rawCount in
                   if currentCount > 0 then
                     (case setCache d key (VNum (currentCount - 1)) expire of
                        Inl _ \<Rightarrow> d
                      | Inr d' \<Rightarrow> d')
                   else d)
     | _ \<Rightarrow> d)"

text \<open>The counter the quota manager reads for a user on a day.\<close>

definition counterOf :: "db \<Rightarrow> string \<Rightarrow> clock \<Rightarrow> int" where
  "counterOf d user now = currentCountOf (map_option fst (store d (quotaCacheKey user now)))"

definition consumeCall :: "string \<Rightarrow> int \<Rightarrow> quota_options" where
  "consumeCall user perDay = \<lparr>username = user, limitEnabled = True, limitPerDay = perDay, checkOnly = False\<rparr>"

definition checkCall :: "string \<Rightarrow> int \<Rightarrow> quota_options" where
  "checkCall user perDay = \<lparr>username = user, limitEnabled = True, limitPerDay = perDay, checkOnly = True\<rparr>"


text \<open>A fresh cache and a clock reading at noon, for the concrete runs below.\<close>

definition db0 :: db where
  "db0 = \<lparr>store = Map.empty, available = True\<rparr>"

definition noon :: clock where
  "noon = \<lparr>dateKey = ''2026-01-05'', secondsToMidnight = 43200\<rparr>"

section \<open>More string operations\<close>

text \<open>\<open>s.split(c)\<close> for a one-character separator: the pieces between the separators,
  so a string without the separator gives one piece and the empty string gives \<open>['''']\<close>.\<close>

fun splitOn :: "char \<Rightarrow> string \<Rightarrow> string list" where
  "splitOn d [] = [[]]"
| "splitOn d (c # cs) =
     (if c = d then [] # splitOn d cs
      else (case splitOn d cs of [] \<Rightarrow> [[c]] | l # ls \<Rightarrow> (c # l) # ls))"

text \<open>\<open>content.split(/\r?\n/)\<close>: a line feed ends a line, and a carriage return right
  before it belongs to the separator.\<close>

fun splitLines :: "string \<Rightarrow> string list" where
  "splitLines [] = [[]]"
| "splitLines (c # cs) =
     (if c = CHR 0x0A then [] # splitLines cs
      else if c = CHR 0x0D \<and> cs \<noteq> [] \<and> hd cs = CHR 0x0A then [] # splitLines (tl cs)
      else (case splitLines cs of [] \<Rightarrow> [[c]] | l # ls \<Rightarrow> (c # l) # ls))"

fun joinWith :: "string \<Rightarrow> string list \<Rightarrow> string" where
  "joinWith sep [] = []"
| "joinWith sep [x] = x"
| "joinWith sep (x # y # ys) = x @ sep @ joinWith sep (y # ys)"

definition toUpperChar :: "char \<Rightarrow> char" where
  "toUpperChar c = translate (asciiLower @ latin1Lower) (asciiUpper @ latin1Upper) c"

text \<open>\<open>String.prototype.toUpperCase\<close> on code units below 256: the sharp s becomes \<open>SS\<close>.
  The upper case of the micro sign and of the y with diaeresis lies above 255, where
  these strings do not reach; the two stand for their upper case.\<close>

definition toUpperCase :: "string \<Rightarrow> string" where
  "toUpperCase s = concat (map (\<lambda>c. if c = CHR 0xDF then ''SS'' else [toUpperChar c]) s)"

text \<open>A regular expression with the \<open>i\<close> flag compares code units after canonicalising
  them, which on this range folds the ASCII letters only.\<close>

definition foldAscii :: "char \<Rightarrow> char" where
  "foldAscii c = translate asciiLower asciiUpper c"

fun startsWithCI :: "string \<Rightarrow> string \<Rightarrow> bool" where
  "startsWithCI s [] = True"
| "startsWithCI [] (p # ps) = False"
| "startsWithCI (c # cs) (p # ps) =
     (if foldAscii c = foldAscii p then startsWithCI cs ps else False)"

text \<open>\<open>/p/.test(s)\<close> and \<open>/p/i.test(s)\<close> for a literal pattern \<open>p\<close>.\<close>

fun containsStr :: "string \<Rightarrow> string \<Rightarrow> bool" where
  "containsStr [] p = (p = [])"
| "containsStr (c # cs) p = (if startsWith (c # cs) p then True else containsStr cs p)"

fun containsCI :: "string \<Rightarrow> string \<Rightarrow> bool" where
  "containsCI [] p = (p = [])"
| "containsCI (c # cs) p = (if startsWithCI (c # cs) p then True else containsCI cs p)"

section \<open>Header and URL directive parser\<close>

definition isCRLF :: "char \<Rightarrow> bool" where
  "isCRLF c = (c = CHR 0x0D \<or> c = CHR 0x0A)"

text \<open>\<open>value.replace(/[\r\n]+/g, ' ')\<close>: every maximal run of CR and LF becomes one space.\<close>

function replaceCRLF :: "string \<Rightarrow> string" where
  "replaceCRLF [] = []"
| "replaceCRLF (c # cs) =
     (if isCRLF c then CHR 0x20 # replaceCRLF (dropWhile isCRLF cs) else c # replaceCRLF cs)"
  by pat_completeness auto
termination
  by (relation "measure length") (auto simp: length_dropWhile_le less_Suc_eq_le)

definition sanitizeHeaderValue :: "string \<Rightarrow> string" where
  "sanitizeHeaderValue v = trim (replaceCRLF v)"

record url_headers =
  hReferer :: "string option"
  hUserAgent :: "string option"
  hOrigin :: "string option"
  hCookie :: "string option"
  hAuthorization :: "string option"

definition noHeaders :: url_headers where
  "noHeaders = \<lparr>hReferer = None, hUserAgent = None, hOrigin = None, hCookie = None,
                 hAuthorization = None\<rparr>"

record parsed_url =
  purl :: string
  pheaders :: url_headers

text \<open>
  The body of the loop over the pairs, up to the last \<open>continue\<close>: the lower-cased key
  and the decoded, sanitised value of a pair, or \<open>None\<close> where the loop skips the pair.
  \<open>decodeURIComponent\<close> is the platform's; \<open>dec\<close> stands for it and returns \<open>None\<close> where
  it throws.
\<close>

definition pairKeyValue :: "(string \<Rightarrow> string option) \<Rightarrow> string \<Rightarrow> (string \<times> string) option" where
  "pairKeyValue dec pair =
    (let trimmedPair = trim pair in
     if trimmedPair = [] then None
     else case splitOn (CHR ''='') trimmedPair of
        [] \<Rightarrow> None
      | rawKey # rest \<Rightarrow>
          if rawKey = [] \<or> rest = [] then None
          else let key = toLowerCase (trim rawKey);
                   rawValue = trim (joinWith ''='' rest)
               in if rawValue = [] then None
                  else let value = sanitizeHeaderValue
                                     (case dec rawValue of Some v \<Rightarrow> v | None \<Rightarrow> rawValue)
                       in if value = [] then None else Some (key, value))"

definition assignHeader :: "url_headers \<Rightarrow> string \<Rightarrow> string \<Rightarrow> url_headers" where
  "assignHeader h key v =
    (if key = ''referer'' \<or> key = ''referrer'' then h\<lparr>hReferer := Some v\<rparr>
     else if key = ''user-agent'' \<or> key = ''useragent'' \<or> key = ''ua'' then h\<lparr>hUserAgent := Some v\<rparr>
     else if key = ''origin'' then h\<lparr>hOrigin := Some v\<rparr>
     else if key = ''cookie'' then h\<lparr>hCookie := Some v\<rparr>
     else if key = ''authorization'' then h\<lparr>hAuthorization := Some v\<rparr>
     else h)"

definition processPair :: "(string \<Rightarrow> string option) \<Rightarrow> url_headers \<Rightarrow> string \<Rightarrow> url_headers" where
  "processPair dec h pair =
     (case pairKeyValue dec pair of None \<Rightarrow> h | Some (key, v) \<Rightarrow> assignHeader h key v)"

definition parseUrlWithHeaders :: "(string \<Rightarrow> string option) \<Rightarrow> string \<Rightarrow> parsed_url" where
  "parseUrlWithHeaders dec rawUrl =
    (let trimmed = trim rawUrl in
     if CHR ''|'' \<notin> set trimmed then \<lparr>purl = trimmed, pheaders = noHeaders\<rparr>
     else let url = trim (takeWhile (\<lambda>c. c \<noteq> CHR ''|'') trimmed);
              headerPart = trim (tl (dropWhile (\<lambda>c. c \<noteq> CHR ''|'') trimmed))
          in if headerPart = [] then \<lparr>purl = url, pheaders = noHeaders\<rparr>
             else \<lparr>purl = url,
                   pheaders = foldl (processPair dec) noHeaders (splitOn (CHR ''&'') headerPart)\<rparr>)"

text \<open>The keys the specification lists as recognised, lower-cased.\<close>

definition specRecognisedKeys :: "string list" where
  "specRecognisedKeys =
     [''referer'', ''referrer'', ''user-agent'', ''ua'', ''origin'', ''cookie'', ''authorization'']"

text \<open>The keys the parser recognises.\<close>

definition recognisedKeys :: "string list" where
  "recognisedKeys =
     [''referer'', ''referrer'', ''user-agent'', ''useragent'', ''ua'', ''origin'', ''cookie'',
      ''authorization'']"

text \<open>A decoder for inputs without a percent sign, on which \<open>decodeURIComponent\<close> is
  the identity.\<close>

definition plainDecode :: "string \<Rightarrow> string option" where
  "plainDecode s = (if CHR ''%'' \<in> set s then None else Some s)"

text \<open>A header value the parser may store: not empty and free of CR and LF.\<close>

definition cleanValue :: "string option \<Rightarrow> bool" where
  "cleanValue x =
     (case x of None \<Rightarrow> True
      | Some v \<Rightarrow> v \<noteq> [] \<and> CHR 0x0D \<notin> set v \<and> CHR 0x0A \<notin> set v)"

definition cleanHeaders :: "url_headers \<Rightarrow> bool" where
  "cleanHeaders h =
     (cleanValue (hReferer h) \<and> cleanValue (hUserAgent h) \<and> cleanValue (hOrigin h)
      \<and> cleanValue (hCookie h) \<and> cleanValue (hAuthorization h))"

section \<open>Shared constants and byte signatures\<close>

definition INVALID_SEGMENT_EXTENSIONS :: "string list" where
  "INVALID_SEGMENT_EXTENSIONS =
     [''.jpg'', ''.jpeg'', ''.png'', ''.gif'', ''.webp'', ''.bmp'', ''.svg'', ''.ico'']"

text \<open>\<open>INVALID_SEGMENT_EXTENSIONS.some((ext) => normalized.endsWith(ext))\<close>\<close>

definition endsWithInvalidExtension :: "string \<Rightarrow> bool" where
  "endsWithInvalidExtension s = list_ex (endsWith s) INVALID_SEGMENT_EXTENSIONS"

text \<open>A buffer is a list of bytes; \<open>buffer[4] || 0\<close> reads a zero byte as zero.\<close>

definition isLikelyMediaBytes :: "string \<Rightarrow> bool" where
  "isLikelyMediaBytes buffer =
    (if buffer = [] then False
     else if hd buffer = CHR 0x47 then True
     else if length buffer \<ge> 8 then
       (let signature = take 4 (drop 4 buffer)
        in signature = ''ftyp'' \<or> signature = ''moof'' \<or> signature = ''styp''
           \<or> signature = ''sidx'' \<or> signature = ''mdat'')
     else False)"

definition isDigit :: "char \<Rightarrow> bool" where
  "isDigit c = (c \<in> set ''0123456789'')"

text \<open>The regular expression \<open>/^172\.(1[6-9]|2[0-9]|3[0-1])\./\<close>.\<close>

definition isPrivate172 :: "string \<Rightarrow> bool" where
  "isPrivate172 lower =
     (startsWith lower ''172.'' \<and>
      (case drop 4 lower of
         a # b # c # _ \<Rightarrow>
           c = CHR ''.'' \<and>
           ((a = CHR ''1'' \<and> b \<in> set ''6789'') \<or> (a = CHR ''2'' \<and> isDigit b)
            \<or> (a = CHR ''3'' \<and> b \<in> set ''01''))
       | _ \<Rightarrow> False))"

definition isPrivateHost :: "string \<Rightarrow> bool" where
  "isPrivateHost host =
    (let lower = toLowerCase host in
     lower = ''localhost'' \<or> lower = ''::1'' \<or> startsWith lower ''127.'' \<or> startsWith lower ''0.''
     \<or> startsWith lower ''10.'' \<or> isPrivate172 lower \<or> startsWith lower ''192.168.'')"

text \<open>Decimal digits of a number, as \<open>String(n)\<close> prints a non-negative integer.\<close>

definition digitChar :: "nat \<Rightarrow> char" where
  "digitChar n = ''0123456789'' ! (n mod 10)"

fun showNat :: "nat \<Rightarrow> string" where
  "showNat n = (if n < 10 then [digitChar n] else showNat (n div 10) @ [digitChar n])"

declare showNat.simps [simp del]

section \<open>Proxy gateway\<close>

text \<open>
  What the gateway reads from a parsed URL. \<open>new URL(input, base)\<close> is the platform's:
  a parameter \<open>urlParse\<close> stands for it and returns \<open>None\<close> where it throws. So does
  \<open>b64\<close> for the base64url decoding of the \<open>u\<close> parameter, and \<open>fetchUpstream\<close> for the
  request to the target.
\<close>

record url =
  protocol :: string
  hostname :: string
  pathname :: string
  href :: string

record proxy_request =
  requestUrl :: string
  paramU :: "string option"
  paramUrl :: "string option"
  paramToken :: "string option"
  hostHeader :: "string option"
  rangeHeader :: "string option"

record upstream =
  upOk :: bool
  upStatus :: nat
  upStatusText :: string
  upContentType :: "string option"
  upContentLength :: "string option"
  upContentRange :: "string option"
  upAcceptRanges :: "string option"
  upFirstChunk :: string
  upBody :: string

record out_headers =
  outContentType :: "string option"
  outContentLength :: "string option"
  outContentRange :: "string option"
  outAcceptRanges :: "string option"
  outCacheControl :: string

datatype response =
    JsonError nat string
  | PlainText nat string
  | Passthrough nat out_headers string
  | Threw

definition truthyStr :: "string option \<Rightarrow> bool" where
  "truthyStr x = (case x of None \<Rightarrow> False | Some s \<Rightarrow> s \<noteq> [])"

definition truthyValue :: "cache_value option \<Rightarrow> bool" where
  "truthyValue x = (case x of None \<Rightarrow> False | Some (VNum n) \<Rightarrow> n \<noteq> 0 | Some (VObj _) \<Rightarrow> True)"

definition DEFAULT_USER_AGENT :: string where
  "DEFAULT_USER_AGENT = ''Mozilla/5.0 (Windows NT 10.0; Win64; x64) AppleWebKit/537.36 (KHTML, like Gecko) Chrome/124.0.0.0 Safari/537.36''"

text \<open>The request headers the gateway sends upstream, as an association list in the
  order the route sets them.\<close>

definition upstreamHeaders :: "proxy_ctx option \<Rightarrow> string option \<Rightarrow> (string \<times> string) list" where
  "upstreamHeaders tokenData rangeValue =
    (let stored = (\<lambda>f. case tokenData of None \<Rightarrow> None | Some c \<Rightarrow> f c);
         opt = (\<lambda>name x. if truthyStr x then [(name, the x)] else [])
     in [(''User-Agent'', if truthyStr (stored ctxUserAgent) then the (stored ctxUserAgent)
                          else DEFAULT_USER_AGENT),
         (''Accept'', ''*/*''), (''Accept-Encoding'', ''identity''), (''Connection'', ''keep-alive'')]
        @ opt ''Referer'' (stored ctxReferer) @ opt ''Origin'' (stored ctxOrigin)
        @ opt ''Cookie'' (stored ctxCookie) @ opt ''Authorization'' (stored ctxAuthorization)
        @ opt ''Range'' rangeValue)"

definition unexpectedContentType :: "string \<Rightarrow> response" where
  "unexpectedContentType contentType =
     PlainText 502 (''Unexpected segment content-type: '' @
                    (if contentType = [] then ''unknown'' else contentType))"

text \<open>The constructor of a response with a body throws for a status outside 200 to 599
  and for the statuses that allow no body.\<close>

definition bodyStatusThrows :: "nat \<Rightarrow> bool" where
  "bodyStatusThrows status =
     (status < 200 \<or> 599 < status \<or> status \<in> set [101, 103, 204, 205, 304])"

definition relayUpstream :: "bool \<Rightarrow> bool \<Rightarrow> upstream \<Rightarrow> response" where
  "relayUpstream allowImage allowEncrypted up =
    (if \<not> upOk up then
       (let status = (if upStatus up \<ge> 500 then 502 else upStatus up)
        in if bodyStatusThrows status then Threw
           else PlainText status
                  (''HTTP Error '' @ showNat (upStatus up) @ '': '' @ upStatusText up))
     else
       let contentType = (case upContentType up of None \<Rightarrow> [] | Some t \<Rightarrow> t);
           lowerType = toLowerCase contentType;
           out = (\<lambda>ct. Passthrough (upStatus up)
                    \<lparr>outContentType = (if ct = [] then None else Some ct),
                     outContentLength = (if truthyStr (upContentLength up) then upContentLength up else None),
                     outContentRange = (if truthyStr (upContentRange up) then upContentRange up else None),
                     outAcceptRanges = (if truthyStr (upAcceptRanges up) then upAcceptRanges up else None),
                     outCacheControl = ''no-store''\<rparr> (upBody up))
       in if startsWith lowerType ''text/html'' \<or> startsWith lowerType ''application/json''
          then unexpectedContentType contentType
          else if startsWith lowerType ''image/'' then
            (if \<not> allowImage then unexpectedContentType contentType
             else if \<not> allowEncrypted \<and> \<not> isLikelyMediaBytes (upFirstChunk up)
             then unexpectedContentType contentType
             else out ''application/octet-stream'')
          else out contentType)"

definition proxyGET ::
  "(string \<Rightarrow> string \<Rightarrow> url option) \<Rightarrow> (string \<Rightarrow> string option) \<Rightarrow>
   (string \<Rightarrow> (string \<times> string) list \<Rightarrow> upstream) \<Rightarrow> db \<Rightarrow> proxy_request \<Rightarrow> response" where
  "proxyGET urlParse b64 fetchUpstream d request =
    (if \<not> truthyStr (paramU request) \<and> \<not> truthyStr (paramUrl request) then JsonError 400 ''Missing url''
     else if \<not> truthyStr (paramToken request) then JsonError 403 ''Unauthorized''
     else case getCache d (''download-proxy:'' @ the (paramToken request)) of
        Inl _ \<Rightarrow> Threw
      | Inr tokenValue \<Rightarrow>
         if \<not> truthyValue tokenValue then JsonError 403 ''Unauthorized''
         else
           let tokenData = (case tokenValue of Some (VObj c) \<Rightarrow> Some c | _ \<Rightarrow> None);
               allowImage = (case tokenData of Some c \<Rightarrow> allowImageSegments c | None \<Rightarrow> False);
               allowEncrypted = (case tokenData of Some c \<Rightarrow> allowEncryptedImageSegments c
                                 | None \<Rightarrow> False);
               resolved = (if truthyStr (paramU request) then b64 (the (paramU request))
                           else Some (case paramUrl request of None \<Rightarrow> [] | Some u \<Rightarrow> u))
           in case resolved of
                None \<Rightarrow> JsonError 400 ''Invalid url''
              | Some resolvedUrl \<Rightarrow>
                 (case urlParse resolvedUrl (requestUrl request) of
                    None \<Rightarrow> JsonError 400 ''Invalid url''
                  | Some targetUrl \<Rightarrow>
                     if protocol targetUrl \<noteq> ''http:'' \<and> protocol targetUrl \<noteq> ''https:''
                     then JsonError 400 ''Unsupported protocol''
                     else
                       let requestHost =
                             (case hostHeader request of None \<Rightarrow> None
                              | Some h \<Rightarrow> Some (toLowerCase (hd (splitOn (CHR '':'') h))))
                       in if isPrivateHost (hostname targetUrl)
                             \<and> Some (toLowerCase (hostname targetUrl)) \<noteq> requestHost
                          then JsonError 403 ''Blocked host''
                          else if \<not> allowImage
                                  \<and> endsWithInvalidExtension (toLowerCase (pathname targetUrl))
                          then PlainText 422 ''Unsupported segment type''
                          else relayUpstream allowImage allowEncrypted
                                 (fetchUpstream (href targetUrl)
                                    (upstreamHeaders tokenData (rangeHeader request)))))"

text \<open>A concrete setting for the gateway: one known token without the image flag, and
  a URL parser that knows two absolute URLs.\<close>

definition plainCtx :: proxy_ctx where
  "plainCtx = \<lparr>ctxReferer = None, ctxUserAgent = None, ctxOrigin = None, ctxCookie = None,
                ctxAuthorization = None, allowImageSegments = False,
                allowEncryptedImageSegments = False\<rparr>"

definition tokenDb :: db where
  "tokenDb = \<lparr>store = [''download-proxy:tok1'' \<mapsto> (VObj plainCtx, 1800)], available = True\<rparr>"

definition exampleUrlParse :: "string \<Rightarrow> string \<Rightarrow> url option" where
  "exampleUrlParse input base =
     (if input = ''https://cdn.example/seg1.jpg''
      then Some \<lparr>protocol = ''https:'', hostname = ''cdn.example'', pathname = ''/seg1.jpg'',
                 href = ''https://cdn.example/seg1.jpg''\<rparr>
      else if input = ''https://cdn.example/seg1.ts''
      then Some \<lparr>protocol = ''https:'', hostname = ''cdn.example'', pathname = ''/seg1.ts'',
                 href = ''https://cdn.example/seg1.ts''\<rparr>
      else None)"

definition noUpstream :: "string \<Rightarrow> (string \<times> string) list \<Rightarrow> upstream" where
  "noUpstream u hs = \<lparr>upOk = False, upStatus = 404, upStatusText = ''Not Found'',
      upContentType = None, upContentLength = None, upContentRange = None,
      upAcceptRanges = None, upFirstChunk = [], upBody = []\<rparr>"

definition imageRequest :: "string option \<Rightarrow> proxy_request" where
  "imageRequest tok = \<lparr>requestUrl = ''http://127.0.0.1:3000/api/download/segment.ts'',
      paramU = None, paramUrl = Some ''https://cdn.example/seg1.jpg'', paramToken = tok,
      hostHeader = Some ''127.0.0.1:3000'', rangeHeader = None\<rparr>"

section \<open>Numbers\<close>

text \<open>
  The route's numbers are IEEE-754 doubles. The ones met in the duration check are never
  negative, so a number is here a rational that a double holds, or infinity; where NaN
  can arise it is \<open>None\<close>. A double is a multiple of the unit in its last place, which is
  \<open>2^(e - 52)\<close> for a value between \<open>2^e\<close> and \<open>2^(e + 1)\<close> and \<open>2^(-1074)\<close> below \<open>2^(-1022)\<close>.
  The result of an operation is the exact result rounded to the nearest double, a tie
  going to the even multiple, and infinity from \<open>2^1024\<close> on.
\<close>

datatype number = Finite rat | Infinity

fun bitLength :: "nat \<Rightarrow> nat" where
  "bitLength n = (if n = 0 then 0 else Suc (bitLength (n div 2)))"

declare bitLength.simps [simp del]

definition pow2 :: "int \<Rightarrow> rat" where
  "pow2 e = 2 powi e"

text \<open>For a positive \<open>x\<close>, the \<open>e\<close> with \<open>2^e \<le> x < 2^(e + 1)\<close>: the bit lengths of numerator
  and denominator give it up to one.\<close>

definition exponentOf :: "rat \<Rightarrow> int" where
  "exponentOf x =
    (let e = int (bitLength (nat (fst (quotient_of x)))) - int (bitLength (nat (snd (quotient_of x))))
     in if pow2 e \<le> x then e else e - 1)"

definition roundHalfEven :: "rat \<Rightarrow> int" where
  "roundHalfEven x =
    (let f = \<lfloor>x\<rfloor>; d = x - of_int f
     in if d < 1 / 2 then f else if 1 / 2 < d then f + 1 else if even f then f else f + 1)"

definition toDouble :: "rat \<Rightarrow> number" where
  "toDouble x =
    (if x \<le> 0 then Finite 0
     else let e = max (exponentOf x) (- 1022);
              ulp = pow2 (e - 52);
              r = of_int (roundHalfEven (x / ulp)) * ulp
          in if pow2 1024 \<le> r then Infinity else Finite r)"

text \<open>Addition, multiplication by a positive double, comparison, and \<open>Math.round\<close> (the
  nearest integer, a half rounding up; it is exact, a double from \<open>2^52\<close> on being an
  integer).\<close>

definition addNumber :: "number \<Rightarrow> number \<Rightarrow> number" where
  "addNumber a b = (case a of Finite x \<Rightarrow> (case b of Finite y \<Rightarrow> toDouble (x + y) | Infinity \<Rightarrow> Infinity)
                    | Infinity \<Rightarrow> Infinity)"

definition timesDouble :: "number \<Rightarrow> rat \<Rightarrow> number" where
  "timesDouble a c = (case a of Finite x \<Rightarrow> toDouble (x * c) | Infinity \<Rightarrow> Infinity)"

definition lessNumber :: "number \<Rightarrow> number \<Rightarrow> bool" where
  "lessNumber a b = (case a of Finite x \<Rightarrow> (case b of Finite y \<Rightarrow> x < y | Infinity \<Rightarrow> True)
                     | Infinity \<Rightarrow> False)"

definition mathRound :: "rat \<Rightarrow> int" where
  "mathRound x = \<lfloor>x + 1 / 2\<rfloor>"

definition roundNumber :: "number \<Rightarrow> number" where
  "roundNumber a = (case a of Finite x \<Rightarrow> Finite (of_int (mathRound x)) | Infinity \<Rightarrow> Infinity)"

text \<open>The literal \<open>0.9\<close> is the double nearest to nine tenths.\<close>

definition ninetyPercent :: rat where
  "ninetyPercent = (case toDouble (9 / 10) of Finite d \<Rightarrow> d | Infinity \<Rightarrow> 0)"

section \<open>Playlist predicates and expected duration\<close>

definition hasMediaSegments :: "string \<Rightarrow> bool" where
  "hasMediaSegments content = list_ex (\<lambda>line. startsWith (trim line) ''#EXTINF'') (splitLines content)"

definition isVodPlaylist :: "string \<Rightarrow> bool" where
  "isVodPlaylist content = containsCI content ''#EXT-X-ENDLIST''"

fun digitValue :: "string \<Rightarrow> char \<Rightarrow> nat" where
  "digitValue [] c = 0"
| "digitValue (d # ds) c = (if c = d then 0 else Suc (digitValue ds c))"

definition digitsValue :: "string \<Rightarrow> nat" where
  "digitsValue ds = foldl (\<lambda>acc c. 10 * acc + digitValue ''0123456789'' c) 0 ds"

text \<open>
  \<open>Number.parseFloat\<close> on a string of digits and dots: the digits before the first dot
  and the digits right after it; no digit on either side is NaN, here \<open>None\<close>. The value
  is the double nearest to the decimal.
\<close>

definition parseFloatDigits :: "string \<Rightarrow> number option" where
  "parseFloatDigits s =
    (let intDigits = takeWhile isDigit s;
         rest = dropWhile isDigit s;
         fracDigits = (case rest of c # r \<Rightarrow> if c = CHR ''.'' then takeWhile isDigit r else []
                       | [] \<Rightarrow> [])
     in if intDigits = [] \<and> fracDigits = [] then None
        else Some (toDouble (of_nat (digitsValue intDigits)
                             + of_nat (digitsValue fracDigits) / of_nat (10 ^ length fracDigits))))"

text \<open>One line of the loop in \<open>parsePlaylistDurationMs\<close>: the seconds it adds, if any;
  \<open>Number.isFinite\<close> lets neither NaN nor infinity through.\<close>

definition extinfSeconds :: "string \<Rightarrow> rat option" where
  "extinfSeconds line =
    (let trimmed = trim line in
     if \<not> startsWith trimmed ''#EXTINF:'' then None
     else let captured = takeWhile (\<lambda>c. isDigit c \<or> c = CHR ''.'') (drop 8 trimmed)
          in if captured = [] then None
             else case parseFloatDigits captured of
                    Some (Finite seconds) \<Rightarrow> Some seconds
                  | _ \<Rightarrow> None)"

definition parsePlaylistDurationMs :: "string \<Rightarrow> number option" where
  "parsePlaylistDurationMs content =
    (let found = List.map_filter extinfSeconds (splitLines content);
         total = foldl (\<lambda>total seconds. addNumber total (Finite seconds)) (Finite 0) found
     in if found = [] then None else Some (roundNumber (timesDouble total 1000)))"

text \<open>\<open>isVodPlaylist(c) && parsePlaylistDurationMs(c) ? parsePlaylistDurationMs(c) : null\<close>:
  a total of zero is falsy.\<close>

definition expectedDurationOf :: "string \<Rightarrow> number option" where
  "expectedDurationOf playlistContent =
    (if isVodPlaylist playlistContent then
       (case parsePlaylistDurationMs playlistContent of
          Some ms \<Rightarrow> if ms \<noteq> Finite 0 then Some ms else None
        | None \<Rightarrow> None)
     else None)"

section \<open>Transcode driver\<close>

text \<open>
  What one run of the transcoder leaves behind: how the process ended, the captured
  standard error, and \<open>lastOutTimeMs\<close>, the value of that variable when the process
  closes: a finite double that is not negative (the last \<open>out_time_ms\<close> of the progress
  output divided by 1000, or 0), given as the rational it is.
\<close>

datatype proc_end = ExitCode nat | ExitNoCode | SpawnFailed string | Killed

record proc_run =
  procEnd :: proc_end
  stderrOutput :: string
  lastOutTimeMs :: rat

record ffmpeg_result =
  ok :: bool
  stderr :: string
  errorMessage :: "string option"
  unsupportedOptions :: "string list option"
  outTimeMs :: "rat option"

text \<open>
  The three patterns of \<open>detectUnsupportedFfmpegOptions\<close>, each as a matcher at the head
  of a string: the captured group and what follows the match.
  \<^item> \<open>/Unrecognized option '([^']+)'/gi\<close>
  \<^item> \<open>/Option ([^ ]+) not found/gi\<close>
  \<^item> \<open>/Unknown option "?([^"\s]+)"?/gi\<close>
  A greedy group that excludes the character the pattern needs next can only match
  its longest run, so no backtracking is lost.
\<close>

definition matchUnrecognized :: "string \<Rightarrow> (string \<times> string) option" where
  "matchUnrecognized s =
    (let lit = ''Unrecognized option '' @ [CHR 0x27] in
     if startsWithCI s lit then
       (let r = drop (length lit) s;
            cap = takeWhile (\<lambda>c. c \<noteq> CHR 0x27) r;
            aft = dropWhile (\<lambda>c. c \<noteq> CHR 0x27) r
        in if cap \<noteq> [] \<and> aft \<noteq> [] then Some (cap, tl aft) else None)
     else None)"

definition matchNotFound :: "string \<Rightarrow> (string \<times> string) option" where
  "matchNotFound s =
    (if startsWithCI s ''Option '' then
       (let r = drop 7 s;
            cap = takeWhile (\<lambda>c. c \<noteq> CHR 0x20) r;
            aft = dropWhile (\<lambda>c. c \<noteq> CHR 0x20) r
        in if cap \<noteq> [] \<and> startsWithCI aft '' not found'' then Some (cap, drop 10 aft) else None)
     else None)"

definition matchUnknown :: "string \<Rightarrow> (string \<times> string) option" where
  "matchUnknown s =
    (if startsWithCI s ''Unknown option '' then
       (let r = drop 15 s;
            r' = (if r \<noteq> [] \<and> hd r = CHR 0x22 then tl r else r);
            cap = takeWhile (\<lambda>c. c \<noteq> CHR 0x22 \<and> \<not> isSpace c) r';
            aft = dropWhile (\<lambda>c. c \<noteq> CHR 0x22 \<and> \<not> isSpace c) r'
        in if cap \<noteq> [] then Some (cap, if aft \<noteq> [] \<and> hd aft = CHR 0x22 then tl aft else aft)
           else None)
     else None)"

text \<open>The \<open>while ((match = pattern.exec(stderr)) !== null)\<close> loop of a global pattern:
  the leftmost match, then on from its end.\<close>

function scanAll :: "(string \<Rightarrow> (string \<times> string) option) \<Rightarrow> string \<Rightarrow> string list" where
  "scanAll m [] = []"
| "scanAll m (c # cs) =
     (case m (c # cs) of
        Some (cap, rest) \<Rightarrow>
          if length rest \<le> length cs then cap # scanAll m rest else cap # scanAll m cs
      | None \<Rightarrow> scanAll m cs)"
  by pat_completeness auto
termination
  by (relation "measure (\<lambda>(m, s). length s)") auto

text \<open>\<open>match[1]?.replace(/^-+/, '').trim()\<close>, added to the set when not empty.\<close>

definition addOption :: "string list \<Rightarrow> string \<Rightarrow> string list" where
  "addOption acc cap =
    (let option = trim (dropWhile (\<lambda>c. c = CHR ''-'') cap)
     in if option = [] \<or> option \<in> set acc then acc else acc @ [option])"

definition detectUnsupportedFfmpegOptions :: "string \<Rightarrow> string list" where
  "detectUnsupportedFfmpegOptions err =
     foldl addOption []
       (scanAll matchUnrecognized err @ scanAll matchNotFound err @ scanAll matchUnknown err)"

record option_state =
  includeHeaders :: bool
  includeProtocolWhitelist :: bool
  includeAllowedExtensions :: bool
  includeAllowedSegmentExtensions :: bool

record transcode_job =
  isHls :: bool
  headerArgs :: "string list"
  inputUrl :: string
  outputPath :: string

definition baseArgs :: "string list" where
  "baseArgs = [''-hide_banner'', ''-loglevel'', ''error'', ''-progress'', ''pipe:1'', ''-nostats'']"

definition inputArgs :: "transcode_job \<Rightarrow> string list" where
  "inputArgs job =
     [''-i'', inputUrl job, ''-c'', ''copy'', ''-movflags'', ''+faststart'', ''-y'', outputPath job]"

definition protocolWhitelistArgs :: "string list" where
  "protocolWhitelistArgs = [''-protocol_whitelist'', ''file,http,https,tcp,tls,crypto,data'']"

definition buildArgs :: "transcode_job \<Rightarrow> option_state \<Rightarrow> string list" where
  "buildArgs job argsOptions =
     baseArgs
     @ (if includeHeaders argsOptions then headerArgs job else [])
     @ (if isHls job \<and> includeProtocolWhitelist argsOptions then protocolWhitelistArgs else [])
     @ (if isHls job \<and> includeAllowedExtensions argsOptions then [''-allowed_extensions'', ''ALL'']
        else [])
     @ (if isHls job \<and> includeAllowedSegmentExtensions argsOptions
        then [''-allowed_segment_extensions'', ''ALL''] else [])
     @ inputArgs job"

text \<open>How \<open>runFfmpeg\<close> resolves, from the way the process ended.\<close>

definition ffmpegResultOf :: "proc_run \<Rightarrow> ffmpeg_result" where
  "ffmpegResultOf r =
    (case procEnd r of
       Killed \<Rightarrow> \<lparr>ok = False, stderr = stderrOutput r, errorMessage = Some ''Download aborted'',
                   unsupportedOptions = None, outTimeMs = None\<rparr>
     | SpawnFailed msg \<Rightarrow> \<lparr>ok = False, stderr = stderrOutput r, errorMessage = Some msg,
                   unsupportedOptions = Some (detectUnsupportedFfmpegOptions (stderrOutput r)),
                   outTimeMs = None\<rparr>
     | ExitNoCode \<Rightarrow> \<lparr>ok = False, stderr = stderrOutput r,
                   errorMessage = Some ''FFmpeg exited with code unknown'',
                   unsupportedOptions = Some (detectUnsupportedFfmpegOptions (stderrOutput r)),
                   outTimeMs = None\<rparr>
     | ExitCode code \<Rightarrow>
         if code = 0 then \<lparr>ok = True, stderr = stderrOutput r, errorMessage = None,
                   unsupportedOptions = None, outTimeMs = Some (lastOutTimeMs r)\<rparr>
         else \<lparr>ok = False, stderr = stderrOutput r,
                   errorMessage = Some (''FFmpeg exited with code '' @ showNat code),
                   unsupportedOptions = Some (detectUnsupportedFfmpegOptions (stderrOutput r)),
                   outTimeMs = None\<rparr>)"

text \<open>The transcoder is outside the sources: \<open>spawn k args\<close> stands for the \<open>k\<close>-th
  invocation (counted from 0) with the argument list \<open>args\<close>. \<open>runFfmpeg\<close> builds the
  arguments, spawns the process with them and resolves to the result; it is given here
  with the arguments it passed, so that the invocations can be listed.\<close>

definition runFfmpeg ::
  "(nat \<Rightarrow> string list \<Rightarrow> proc_run) \<Rightarrow> transcode_job \<Rightarrow> nat \<Rightarrow> option_state
     \<Rightarrow> string list \<times> ffmpeg_result" where
  "runFfmpeg spawn job k argsOptions =
    (let args = buildArgs job argsOptions in (args, ffmpegResultOf (spawn k args)))"

text \<open>One pass of the body of the narrowing loop over the four flag groups: the new
  option state and whether anything changed.\<close>

definition narrowOptions :: "option_state \<Rightarrow> string list \<Rightarrow> option_state \<times> bool" where
  "narrowOptions st unsupported =
    (let h = includeHeaders st \<and> (''headers'' \<in> set unsupported \<or> ''user_agent'' \<in> set unsupported);
         p = includeProtocolWhitelist st \<and> ''protocol_whitelist'' \<in> set unsupported;
         e = includeAllowedExtensions st \<and> ''allowed_extensions'' \<in> set unsupported;
         s = includeAllowedSegmentExtensions st \<and> ''allowed_segment_extensions'' \<in> set unsupported
     in (\<lparr>includeHeaders = (if h then False else includeHeaders st),
          includeProtocolWhitelist = (if p then False else includeProtocolWhitelist st),
          includeAllowedExtensions = (if e then False else includeAllowedExtensions st),
          includeAllowedSegmentExtensions = (if s then False else includeAllowedSegmentExtensions st)\<rparr>,
         h \<or> p \<or> e \<or> s))"

text \<open>The loop \<open>while (!ffmpegResult.ok && attempts < 3)\<close>; it returns the invocations it
  makes, in order: for each the option state it ran with, the arguments passed to the
  process and the result.\<close>

record invocation =
  invState :: option_state
  invArgs :: "string list"
  invResult :: ffmpeg_result

function narrowingLoop ::
  "(nat \<Rightarrow> string list \<Rightarrow> proc_run) \<Rightarrow> transcode_job \<Rightarrow> option_state \<Rightarrow> ffmpeg_result \<Rightarrow> nat
     \<Rightarrow> invocation list" where
  "narrowingLoop spawn job optionState ffmpegResult attempts =
    (if \<not> ok ffmpegResult \<and> attempts < 3 then
       (let unsupported = (case unsupportedOptions ffmpegResult of None \<Rightarrow> [] | Some u \<Rightarrow> u)
        in if unsupported = [] then []
           else case narrowOptions optionState unsupported of
             (optionState', changed) \<Rightarrow>
               if \<not> changed then []
               else case runFfmpeg spawn job (attempts + 1) optionState' of
                 (args, ffmpegResult') \<Rightarrow>
                   \<lparr>invState = optionState', invArgs = args, invResult = ffmpegResult'\<rparr>
                   # narrowingLoop spawn job optionState' ffmpegResult' (attempts + 1))
     else [])"
  by pat_completeness auto
termination
  by (relation "measure (\<lambda>(spawn, job, st, res, attempts). 3 - attempts)") auto

declare narrowingLoop.simps [simp del]

definition initialOptions :: "transcode_job \<Rightarrow> option_state" where
  "initialOptions job =
     \<lparr>includeHeaders = (headerArgs job \<noteq> []), includeProtocolWhitelist = isHls job,
      includeAllowedExtensions = isHls job, includeAllowedSegmentExtensions = isHls job\<rparr>"

text \<open>Every invocation of the transcoder in one attempt, the first one included.\<close>

definition ffmpegInvocations ::
  "(nat \<Rightarrow> string list \<Rightarrow> proc_run) \<Rightarrow> transcode_job \<Rightarrow> invocation list" where
  "ffmpegInvocations spawn job =
    (let optionState = initialOptions job in
     case runFfmpeg spawn job 0 optionState of
       (args, ffmpegResult) \<Rightarrow>
         \<lparr>invState = optionState, invArgs = args, invResult = ffmpegResult\<rparr>
         # narrowingLoop spawn job optionState ffmpegResult 0)"

datatype download_error = DownloadError string nat

definition attemptDurationOf :: "ffmpeg_result \<Rightarrow> int option" where
  "attemptDurationOf ffmpegResult =
     (case outTimeMs ffmpegResult of
        Some t \<Rightarrow> if t \<noteq> 0 then Some (mathRound t) else None
      | None \<Rightarrow> None)"

text \<open>
  The end of \<open>runAttempt\<close>, from the last result of the transcoder: \<open>statSize\<close> is the size
  \<open>fs.stat\<close> gives for the output file (\<open>None\<close> where it fails). The result is the error
  thrown or \<open>outputDurationMs\<close>.
\<close>

definition validateOutput ::
  "int option \<Rightarrow> number option \<Rightarrow> ffmpeg_result \<Rightarrow> download_error + int option" where
  "validateOutput statSize expectedDurationMs ffmpegResult =
    (if \<not> ok ffmpegResult then
       Inl (DownloadError (case errorMessage ffmpegResult of
                             Some m \<Rightarrow> if m = [] then ''FFmpeg failed'' else m
                           | None \<Rightarrow> ''FFmpeg failed'') 500)
     else
       let attemptDurationMs = attemptDurationOf ffmpegResult in
       if (case statSize of None \<Rightarrow> True | Some sz \<Rightarrow> sz \<le> 0) then
         Inl (DownloadError ''Empty output from ffmpeg'' 500)
       else if (case (expectedDurationMs, attemptDurationMs) of
                  (Some e, Some a) \<Rightarrow>
                    e \<noteq> Finite 0 \<and> a \<noteq> 0
                    \<and> lessNumber (Finite (of_int a)) (timesDouble e ninetyPercent)
                | _ \<Rightarrow> False) then
         Inl (DownloadError ''Output appears incomplete'' 500)
       else Inr attemptDurationMs)"



text \<open>A playlist of one segment of 0.5005 seconds. The double nearest to 0.5005 lies
  below it, and so does its product with 1000.\<close>

definition halfSecondPlaylist :: string where
  "halfSecondPlaylist = ''#EXTM3U'' @ [CHR 0x0A] @ ''#EXTINF:0.5005,'' @ [CHR 0x0A] @ ''seg1.ts''
                 @ [CHR 0x0A] @ ''#EXT-X-ENDLIST''"

definition okRun :: "rat \<Rightarrow> ffmpeg_result" where
  "okRun t = ffmpegResultOf \<lparr>procEnd = ExitCode 0, stderrOutput = [], lastOutTimeMs = t\<rparr>"

definition hlsJob :: transcode_job where
  "hlsJob = \<lparr>isHls = True, headerArgs = [''-headers'', ''User-Agent: x''],
             inputUrl = ''/tmp/playlist.m3u8'', outputPath = ''/tmp/video.mp4''\<rparr>"

text \<open>A transcoder that rejects the protocol whitelist whenever it is passed, with the
  two lines the real one prints.\<close>

definition whitelistComplaint :: string where
  "whitelistComplaint =
     ''Unrecognized option '' @ [CHR 0x27] @ ''protocol_whitelist'' @ [CHR 0x27] @ ''.'' @ [CHR 0x0A]
     @ ''Error splitting the argument list: Option not found'' @ [CHR 0x0A]"

definition pickySpawn :: "nat \<Rightarrow> string list \<Rightarrow> proc_run" where
  "pickySpawn k args =
     (if ''-protocol_whitelist'' \<in> set args
      then \<lparr>procEnd = ExitCode 1, stderrOutput = whitelistComplaint, lastOutTimeMs = 0\<rparr>
      else \<lparr>procEnd = ExitCode 0, stderrOutput = [], lastOutTimeMs = 10000\<rparr>)"

text \<open>
  Vocabulary for the narrowing loop: a result names an option when the transcoder failed
  on its own (was not killed) and the option is among those detected in its standard
  error; \<open>retryNeeded\<close> is the condition under which the loop invokes the transcoder
  again after \<open>k\<close> retries, and \<open>narrowedState\<close> the option state it then uses.
\<close>

definition namesOption :: "ffmpeg_result \<Rightarrow> string \<Rightarrow> bool" where
  "namesOption res opt = (case unsupportedOptions res of None \<Rightarrow> False | Some u \<Rightarrow> opt \<in> set u)"

definition retryNeeded :: "option_state \<Rightarrow> ffmpeg_result \<Rightarrow> nat \<Rightarrow> bool" where
  "retryNeeded st res k =
     (\<not> ok res \<and> k < 3 \<and>
      (case unsupportedOptions res of None \<Rightarrow> False | Some u \<Rightarrow> snd (narrowOptions st u)))"

definition narrowedState :: "option_state \<Rightarrow> ffmpeg_result \<Rightarrow> option_state" where
  "narrowedState st res =
     fst (narrowOptions st (case unsupportedOptions res of None \<Rightarrow> [] | Some u \<Rightarrow> u))"

text \<open>
  Vocabulary for what the standard error says. An option name is plain when it is not
  empty, has no quote and no white space in it and does not start with a dash: then the
  pattern's group captures it whole and \<open>replace(/^-+/, '').trim()\<close> leaves it as it is.
  The three messages below name the option \<open>opt\<close> in the wording of each pattern.
\<close>

definition plainOption :: "string \<Rightarrow> bool" where
  "plainOption opt =
     (opt \<noteq> [] \<and> hd opt \<noteq> CHR ''-''
      \<and> list_all (\<lambda>c. c \<noteq> CHR 0x27 \<and> c \<noteq> CHR 0x22 \<and> \<not> isSpace c) opt)"

definition unrecognizedMessage :: "string \<Rightarrow> string" where
  "unrecognizedMessage opt = ''Unrecognized option '' @ [CHR 0x27] @ opt @ [CHR 0x27]"

definition notFoundMessage :: "string \<Rightarrow> string" where
  "notFoundMessage opt = ''Option '' @ opt @ '' not found''"

definition unknownMessage :: "string \<Rightarrow> string" where
  "unknownMessage opt = ''Unknown option '' @ [CHR 0x22] @ opt @ [CHR 0x22]"

text \<open>No match of a pattern that opens with the text \<open>lit\<close> begins inside \<open>pre\<close> when
  \<open>lit\<close>, in any letter case, does not occur in \<open>pre\<close> followed by all of \<open>lit\<close> but its
  last character.\<close>

definition noEarlier :: "string \<Rightarrow> string \<Rightarrow> bool" where
  "noEarlier lit pre = (\<not> containsCI (pre @ butlast lit) lit)"

text \<open>An invocation was spawned as number \<open>k\<close> when its arguments are the ones built from
  its option state and its result is what that process left.\<close>

definition spawned ::
  "(nat \<Rightarrow> string list \<Rightarrow> proc_run) \<Rightarrow> transcode_job \<Rightarrow> nat \<Rightarrow> invocation \<Rightarrow> bool" where
  "spawned spawn job k call =
     (invArgs call = buildArgs job (invState call)
      \<and> invResult call = ffmpegResultOf (spawn k (invArgs call)))"

text \<open>
  The standard error names the option \<open>opt\<close> when it holds, in any letter case, one of
  the three wordings around a captured text \<open>cap\<close>, of which \<open>opt\<close> is what is left after
  dropping leading dashes and trimming: \<open>Unrecognized option 'cap'\<close>, \<open>Option cap not
  found\<close>, or \<open>Unknown option cap\<close> with or without an opening double quote.
\<close>

definition sameLetters :: "string \<Rightarrow> string \<Rightarrow> bool" where
  "sameLetters a b = (map foldAscii a = map foldAscii b)"

definition namedIn :: "string \<Rightarrow> string \<Rightarrow> bool" where
  "namedIn err opt =
    (\<exists>pre lit cap post.
       err = pre @ lit @ cap @ post \<and> cap \<noteq> []
       \<and> opt = trim (dropWhile (\<lambda>c. c = CHR ''-'') cap)
       \<and> ((sameLetters lit (''Unrecognized option '' @ [CHR 0x27]) \<and> CHR 0x27 \<notin> set cap
            \<and> startsWith post [CHR 0x27])
          \<or> (sameLetters lit ''Option '' \<and> CHR 0x20 \<notin> set cap \<and> startsWithCI post '' not found'')
          \<or> ((sameLetters lit ''Unknown option '' \<or> sameLetters lit (''Unknown option '' @ [CHR 0x22]))
              \<and> list_all (\<lambda>c. c \<noteq> CHR 0x22 \<and> \<not> isSpace c) cap)))"

section \<open>Segment fetcher pool: reading the playlist\<close>

text \<open>
  The two things the pool asks of the platform's URL class: \<open>urlResolve u base\<close> is
  \<open>new URL(u, base).toString()\<close> and \<open>urlPathname u\<close> is \<open>new URL(u).pathname\<close>; both
  are \<open>None\<close> where the constructor throws.
\<close>

record url_api =
  urlResolve :: "string \<Rightarrow> string \<Rightarrow> string option"
  urlPathname :: "string \<Rightarrow> string option"

definition resolveOr :: "url_api \<Rightarrow> string \<Rightarrow> string \<Rightarrow> string" where
  "resolveOr api u base = (case urlResolve api u base of Some r \<Rightarrow> r | None \<Rightarrow> u)"

text \<open>\<open>list.split(/,(?=(?:[^"]*"[^"]*")*[^"]*$)/)\<close>: a comma separates when an even number
  of double quotes follows it.\<close>

fun splitAttributes :: "string \<Rightarrow> string list" where
  "splitAttributes [] = [[]]"
| "splitAttributes (c # cs) =
     (if c = CHR '','' \<and> even (length (filter (\<lambda>x. x = CHR 0x22) cs)) then [] # splitAttributes cs
      else (case splitAttributes cs of [] \<Rightarrow> [[c]] | l # ls \<Rightarrow> (c # l) # ls))"

text \<open>\<open>value.slice(1, -1)\<close> when the value starts and ends with a double quote.\<close>

definition unquote :: "string \<Rightarrow> string" where
  "unquote v = (if startsWith v [CHR 0x22] \<and> endsWith v [CHR 0x22]
                then take (length v - 2) (drop 1 v) else v)"

definition addAttribute :: "(string \<rightharpoonup> string) \<Rightarrow> string \<Rightarrow> (string \<rightharpoonup> string)" where
  "addAttribute attrs part =
    (let trimmed = trim part in
     if trimmed = [] then attrs
     else case splitOn (CHR ''='') trimmed of
        [] \<Rightarrow> attrs
      | rawKey # rest \<Rightarrow>
          if rawKey = [] \<or> rest = [] then attrs
          else attrs(toUpperCase (trim rawKey) \<mapsto> unquote (trim (joinWith ''='' rest))))"

definition parseAttributeList :: "string \<Rightarrow> (string \<rightharpoonup> string)" where
  "parseAttributeList line =
    (if CHR '':'' \<notin> set line then Map.empty
     else let attrList = trim (tl (dropWhile (\<lambda>c. c \<noteq> CHR '':'') line)) in
          if attrList = [] then Map.empty
          else foldl addAttribute Map.empty (splitAttributes attrList))"

text \<open>
  \<open>path.posix.extname\<close>, the platform's: the extension of the last path component
  (trailing slashes dropped), from its last dot; empty when the component has no dot,
  starts with its only dot, or is \<open>..\<close>.
\<close>

definition lastComponent :: "string \<Rightarrow> string" where
  "lastComponent path =
     rev (takeWhile (\<lambda>c. c \<noteq> CHR ''/'') (dropWhile (\<lambda>c. c = CHR ''/'') (rev path)))"

definition extname :: "string \<Rightarrow> string" where
  "extname path =
    (let comp = lastComponent path;
         after = rev (takeWhile (\<lambda>c. c \<noteq> CHR ''.'') (rev comp));
         stem = rev (tl (dropWhile (\<lambda>c. c \<noteq> CHR ''.'') (rev comp)))
     in if CHR ''.'' \<notin> set comp then []
        else if stem = [] then []
        else if comp = ''..'' then []
        else CHR ''.'' # after)"

definition getSafeSegmentExtension :: "url_api \<Rightarrow> string \<Rightarrow> string" where
  "getSafeSegmentExtension api resolvedUrl =
    (case urlPathname api resolvedUrl of
       None \<Rightarrow> ''.ts''
     | Some path \<Rightarrow>
         let ext = toLowerCase (extname path) in
         if ext = [] \<or> ext \<in> set INVALID_SEGMENT_EXTENSIONS then ''.ts'' else ext)"

text \<open>\<open>String(n).padStart(5, '0')\<close>\<close>

definition padStart5 :: "string \<Rightarrow> string" where
  "padStart5 s = replicate (5 - length s) (CHR ''0'') @ s"

record hls_entry =
  lineIndex :: nat
  resolved :: string
  localPath :: string

text \<open>The variables of the loop over the lines. The two \<open>Map\<close>s are association lists in
  insertion order, each URL once.\<close>

record hls_parse =
  segments :: "hls_entry list"
  keys :: "hls_entry list"
  maps :: "hls_entry list"
  keyMap :: "(string \<times> string) list"
  mapMap :: "(string \<times> string) list"
  hasByterange :: bool
  hasPartial :: bool

definition emptyParse :: hls_parse where
  "emptyParse = \<lparr>segments = [], keys = [], maps = [], keyMap = [], mapMap = [],
                  hasByterange = False, hasPartial = False\<rparr>"

definition DEFAULT_SEGMENT_MIN_COUNT :: nat where
  "DEFAULT_SEGMENT_MIN_COUNT = 6"

definition keyLineStep :: "url_api \<Rightarrow> string \<Rightarrow> nat \<Rightarrow> string \<Rightarrow> hls_parse \<Rightarrow> hls_parse option" where
  "keyLineStep api baseUrl i line st =
    (let attrs = parseAttributeList line;
         method = toUpperCase (case attrs ''METHOD'' of Some m \<Rightarrow> m | None \<Rightarrow> []);
         keyformat = (case attrs ''KEYFORMAT'' of Some k \<Rightarrow> toLowerCase k | None \<Rightarrow> [])
     in if keyformat \<noteq> [] \<and> keyformat \<noteq> ''identity'' then None
        else case attrs ''URI'' of
           None \<Rightarrow> Some st
         | Some uri \<Rightarrow>
             if method \<noteq> [] \<and> method \<noteq> ''NONE'' \<and> uri \<noteq> [] then
               (let r = resolveOr api uri baseUrl;
                    km = (if map_of (keyMap st) r = None
                          then keyMap st @ [(r, ''key_'' @ showNat (length (keyMap st) + 1) @ ''.key'')]
                          else keyMap st)
                in case map_of km r of
                     None \<Rightarrow> Some (st\<lparr>keyMap := km\<rparr>)
                   | Some localName \<Rightarrow>
                       if localName = [] then Some (st\<lparr>keyMap := km\<rparr>)
                       else Some (st\<lparr>keyMap := km,
                                     keys := keys st @ [\<lparr>lineIndex = i, resolved = r,
                                                        localPath = ''keys/'' @ localName\<rparr>]\<rparr>))
             else Some st)"

definition mapLineStep :: "url_api \<Rightarrow> string \<Rightarrow> nat \<Rightarrow> string \<Rightarrow> hls_parse \<Rightarrow> hls_parse" where
  "mapLineStep api baseUrl i line st =
    (case parseAttributeList line ''URI'' of
       None \<Rightarrow> st
     | Some uri \<Rightarrow>
         if uri = [] then st
         else
           (let r = resolveOr api uri baseUrl;
                mm = (if map_of (mapMap st) r = None
                      then mapMap st @ [(r, ''init_'' @ showNat (length (mapMap st) + 1)
                                            @ getSafeSegmentExtension api r)]
                      else mapMap st)
            in case map_of mm r of
                 None \<Rightarrow> st\<lparr>mapMap := mm\<rparr>
               | Some localName \<Rightarrow>
                   if localName = [] then st\<lparr>mapMap := mm\<rparr>
                   else st\<lparr>mapMap := mm,
                           maps := maps st @ [\<lparr>lineIndex = i, resolved = r,
                                              localPath = ''maps/'' @ localName\<rparr>]\<rparr>))"

definition segmentLineStep :: "url_api \<Rightarrow> string \<Rightarrow> nat \<Rightarrow> string \<Rightarrow> hls_parse \<Rightarrow> hls_parse" where
  "segmentLineStep api baseUrl i line st =
    (let r = resolveOr api line baseUrl;
         ext = getSafeSegmentExtension api r;
         name = ''seg_'' @ padStart5 (showNat (length (segments st) + 1)) @ ext
     in st\<lparr>segments := segments st @ [\<lparr>lineIndex = i, resolved = r,
                                        localPath = ''segments/'' @ name\<rparr>]\<rparr>)"

text \<open>The body of the loop for line \<open>i\<close>; \<open>None\<close> is the \<open>return null\<close> inside it.\<close>

definition parseLine :: "url_api \<Rightarrow> string \<Rightarrow> nat \<Rightarrow> string \<Rightarrow> hls_parse \<Rightarrow> hls_parse option" where
  "parseLine api baseUrl i rawLine st =
    (let line = trim rawLine in
     if line = [] then Some st
     else if startsWith line ''#EXT-X-BYTERANGE'' then Some (st\<lparr>hasByterange := True\<rparr>)
     else if startsWith line ''#EXT-X-PART'' \<or> startsWith line ''#EXT-X-PRELOAD-HINT''
       then Some (st\<lparr>hasPartial := True\<rparr>)
     else if startsWith line ''#EXT-X-KEY'' then keyLineStep api baseUrl i line st
     else if startsWith line ''#EXT-X-MAP'' then Some (mapLineStep api baseUrl i line st)
     else if startsWith line ''#'' then Some st
     else Some (segmentLineStep api baseUrl i line st))"

fun parseLines :: "url_api \<Rightarrow> string \<Rightarrow> nat \<Rightarrow> string list \<Rightarrow> hls_parse \<Rightarrow> hls_parse option" where
  "parseLines api baseUrl i [] st = Some st"
| "parseLines api baseUrl i (l # ls) st =
     (case parseLine api baseUrl i l st of
        None \<Rightarrow> None
      | Some st' \<Rightarrow> parseLines api baseUrl (Suc i) ls st')"

text \<open>Everything \<open>downloadHlsSegmentsParallel\<close> does before it touches the disk or the
  network: \<open>None\<close> where it returns \<open>null\<close>, otherwise what it is going to download.\<close>

definition planDownload :: "url_api \<Rightarrow> string \<Rightarrow> string \<Rightarrow> hls_parse option" where
  "planDownload api content baseUrl =
    (if \<not> isVodPlaylist content \<or> \<not> hasMediaSegments content then None
     else case parseLines api baseUrl 0 (splitLines content) emptyParse of
        None \<Rightarrow> None
      | Some st \<Rightarrow>
          if hasByterange st \<or> hasPartial st then None
          else if length (segments st) < DEFAULT_SEGMENT_MIN_COUNT then None
          else Some st)"

text \<open>The lines the loop counts as segments: not empty after trimming and not a tag or
  comment.\<close>

definition isSegmentLine :: "string \<Rightarrow> bool" where
  "isSegmentLine rawLine = (trim rawLine \<noteq> [] \<and> \<not> startsWith (trim rawLine) ''#'')"

definition hasTag :: "string \<Rightarrow> string \<Rightarrow> bool" where
  "hasTag content tag = list_ex (\<lambda>l. startsWith (trim l) tag) (splitLines content)"

text \<open>A key line whose \<open>KEYFORMAT\<close> is present, not empty and not \<open>identity\<close> in any case.\<close>

definition foreignKeyLine :: "string \<Rightarrow> bool" where
  "foreignKeyLine rawLine =
    (startsWith (trim rawLine) ''#EXT-X-KEY'' \<and>
     (case parseAttributeList (trim rawLine) ''KEYFORMAT'' of
        None \<Rightarrow> False
      | Some k \<Rightarrow> k \<noteq> [] \<and> toLowerCase k \<noteq> ''identity''))"

section \<open>Segment fetcher pool: downloading and rewriting\<close>

text \<open>
  The network and the disk are parameters. \<open>net url filePath attempt\<close> is what the
  \<open>try\<close> block of attempt number \<open>attempt\<close> (from 0) for that file comes to, that is
  \<open>fetchWithTimeout\<close>, the check of \<open>response.ok\<close> and \<open>writeResponseToFile\<close>: it is
  \<open>Saved\<close>, or it throws with a message (\<open>HTTP 503\<close>, a network error, the timeout's
  abort) and tells whether the caller's signal is aborted by then. The events record
  each attempt with its timeout and each back-off delay.
\<close>

datatype fetch_outcome = Saved | Failure string bool

datatype io_event = Fetch string string nat | Sleep nat

function downloadFileWithRetry ::
  "(string \<Rightarrow> string \<Rightarrow> nat \<Rightarrow> fetch_outcome) \<Rightarrow> string \<Rightarrow> string \<Rightarrow> nat \<Rightarrow> nat \<Rightarrow> nat
     \<Rightarrow> (string + unit) \<times> io_event list" where
  "downloadFileWithRetry net url filePath timeoutMs retries attempt =
    (if attempt \<le> retries then
       (case net url filePath attempt of
          Saved \<Rightarrow> (Inr (), [Fetch url filePath timeoutMs])
        | Failure msg aborted \<Rightarrow>
            if aborted then (Inl ''Download aborted'', [Fetch url filePath timeoutMs])
            else if attempt \<ge> retries then (Inl msg, [Fetch url filePath timeoutMs])
            else (case downloadFileWithRetry net url filePath timeoutMs retries (attempt + 1) of
                    (r, events) \<Rightarrow>
                      (r, Fetch url filePath timeoutMs # Sleep (400 * (attempt + 1)) # events)))
     else (Inr (), []))"
  by pat_completeness auto
termination
  by (relation "measure (\<lambda>(net, url, filePath, timeoutMs, retries, attempt). Suc retries - attempt)")
     auto

declare downloadFileWithRetry.simps [simp del]

text \<open>The three settings read from the environment: \<open>toNumber(value, fallback)\<close> gives
  the fallback unless the variable holds a finite number, here \<open>Some\<close> of it.\<close>

record fetch_env =
  envConcurrency :: "rat option"
  envRetry :: "rat option"
  envTimeoutMs :: "rat option"

definition toNumber :: "rat option \<Rightarrow> rat \<Rightarrow> rat" where
  "toNumber v fallback = (case v of Some x \<Rightarrow> x | None \<Rightarrow> fallback)"

definition segmentConcurrency :: "fetch_env \<Rightarrow> nat" where
  "segmentConcurrency env = nat (max 2 \<lfloor>toNumber (envConcurrency env) 8\<rfloor>)"

definition segmentRetries :: "fetch_env \<Rightarrow> nat" where
  "segmentRetries env = nat (max 0 \<lfloor>toNumber (envRetry env) 2\<rfloor>)"

definition segmentTimeoutMs :: "fetch_env \<Rightarrow> nat" where
  "segmentTimeoutMs env = nat (max 5000 \<lfloor>toNumber (envTimeoutMs env) 25000\<rfloor>)"

definition defaultEnv :: fetch_env where
  "defaultEnv = \<lparr>envConcurrency = None, envRetry = None, envTimeoutMs = None\<rparr>"

text \<open>The keys, then the init maps, one after the other: the first failure ends it.\<close>

fun downloadAll ::
  "(string \<Rightarrow> string \<Rightarrow> nat \<Rightarrow> fetch_outcome) \<Rightarrow> nat \<Rightarrow> nat \<Rightarrow> string \<Rightarrow> (string \<times> string) list
     \<Rightarrow> (string + unit) \<times> io_event list" where
  "downloadAll net timeoutMs retries dir [] = (Inr (), [])"
| "downloadAll net timeoutMs retries dir ((url, localName) # rest) =
     (case downloadFileWithRetry net url (dir @ localName) timeoutMs retries 0 of
        (Inl e, events) \<Rightarrow> (Inl e, events)
      | (Inr _, events) \<Rightarrow>
          (case downloadAll net timeoutMs retries dir rest of
             (r, events') \<Rightarrow> (r, events @ events')))"

text \<open>
  The worker pool. Workers are asynchronous loops on one thread: a worker claims the next
  index, waits for that download, and claims again. Which of the downloads in flight
  ends next is up to the network, so a scheduler \<open>sched\<close> picks it, knowing how many have
  ended and which are in flight. \<open>download i\<close> is how the download of segment \<open>i\<close> ends,
  and \<open>abortedAt k\<close> whether the signal is aborted when index \<open>k\<close> is about to be
  claimed. The first rejection rejects \<open>Promise.all\<close>; progress reports are left out.
\<close>

record pool_state =
  nextIndex :: nat
  inflight :: "nat list"
  completed :: nat

function runPool ::
  "(nat \<Rightarrow> nat list \<Rightarrow> nat) \<Rightarrow> (nat \<Rightarrow> string + unit) \<Rightarrow> (nat \<Rightarrow> bool) \<Rightarrow> nat \<Rightarrow> pool_state
     \<Rightarrow> string + nat" where
  "runPool sched download abortedAt n st =
    (if inflight st = [] then Inr (completed st)
     else
       let pos = sched (completed st) (inflight st) mod length (inflight st);
           i = inflight st ! pos;
           others = take pos (inflight st) @ drop (Suc pos) (inflight st)
       in case download i of
            Inl e \<Rightarrow> Inl e
          | Inr _ \<Rightarrow>
              if nextIndex st < n then
                (if abortedAt (nextIndex st) then Inl ''Download aborted''
                 else runPool sched download abortedAt n
                        \<lparr>nextIndex = Suc (nextIndex st), inflight = others @ [nextIndex st],
                         completed = Suc (completed st)\<rparr>)
              else runPool sched download abortedAt n
                     \<lparr>nextIndex = nextIndex st, inflight = others, completed = Suc (completed st)\<rparr>)"
  by pat_completeness auto
termination
proof (relation "measure (\<lambda>(sched, download, abortedAt, n, st).
                   2 * (n - nextIndex st) + length (inflight st))", goal_cases)
  case 1
  show ?case by simp
next
  case (2 sched download abortedAt n st pos i others x)
  have "pos < length (inflight st)" using 2 by simp
  moreover have "length others = pos + (length (inflight st) - Suc pos)" using 2 by simp
  ultimately have "length others < length (inflight st)" by arith
  then show ?case using 2(1,6) by simp
next
  case (3 sched download abortedAt n st pos i others x)
  have "pos < length (inflight st)" using 3 by simp
  moreover have "length others = pos + (length (inflight st) - Suc pos)" using 3 by simp
  ultimately have "length others < length (inflight st)" by arith
  then show ?case using 3(1,6) by simp
qed

declare runPool.simps [simp del]

text \<open>The workers start one after the other, each claiming an index before it first
  waits.\<close>

definition startPool ::
  "(nat \<Rightarrow> nat list \<Rightarrow> nat) \<Rightarrow> (nat \<Rightarrow> string + unit) \<Rightarrow> (nat \<Rightarrow> bool) \<Rightarrow> nat \<Rightarrow> nat
     \<Rightarrow> string + nat" where
  "startPool sched download abortedAt workers n =
    (let w = min workers n in
     if list_ex abortedAt [0..<w] then Inl ''Download aborted''
     else runPool sched download abortedAt n \<lparr>nextIndex = w, inflight = [0..<w], completed = 0\<rparr>)"

text \<open>The replacement text of \<open>String.prototype.replace\<close>: \<open>$$\<close>, \<open>$&\<close>, the text before
  and the text after the match; the patterns here have no groups, so \<open>$1\<close> stays.\<close>

fun expandReplacement :: "string \<Rightarrow> string \<Rightarrow> string \<Rightarrow> string \<Rightarrow> string" where
  "expandReplacement [] m b a = []"
| "expandReplacement [c] m b a = [c]"
| "expandReplacement (c # d # cs) m b a =
     (if c = CHR ''$'' then
        (if d = CHR ''$'' then CHR ''$'' # expandReplacement cs m b a
         else if d = CHR ''&'' then m @ expandReplacement cs m b a
         else if d = CHR 0x60 then b @ expandReplacement cs m b a
         else if d = CHR 0x27 then a @ expandReplacement cs m b a
         else c # expandReplacement (d # cs) m b a)
      else c # expandReplacement (d # cs) m b a)"

text \<open>The length of a match of \<open>/URI="[^"]*"/i\<close>, and of \<open>/URI=[^,]+/i\<close>, at the head
  of a string.\<close>

definition matchQuotedUri :: "string \<Rightarrow> nat option" where
  "matchQuotedUri s =
    (if startsWithCI s (''URI='' @ [CHR 0x22]) \<and> CHR 0x22 \<in> set (drop 5 s)
     then Some (5 + length (takeWhile (\<lambda>c. c \<noteq> CHR 0x22) (drop 5 s)) + 1) else None)"

definition matchBareUri :: "string \<Rightarrow> nat option" where
  "matchBareUri s =
    (if startsWithCI s ''URI='' \<and> takeWhile (\<lambda>c. c \<noteq> CHR '','') (drop 4 s) \<noteq> []
     then Some (4 + length (takeWhile (\<lambda>c. c \<noteq> CHR '','') (drop 4 s))) else None)"

text \<open>The leftmost match: what is before it, the match, what is after it.\<close>

fun findMatch :: "(string \<Rightarrow> nat option) \<Rightarrow> string \<Rightarrow> (string \<times> string \<times> string) option" where
  "findMatch m [] = None"
| "findMatch m (c # cs) =
     (case m (c # cs) of
        Some n \<Rightarrow> Some ([], take n (c # cs), drop n (c # cs))
      | None \<Rightarrow> (case findMatch m cs of
                   None \<Rightarrow> None
                 | Some (b, x, a) \<Rightarrow> Some (c # b, x, a)))"

definition replaceFirst :: "(string \<Rightarrow> nat option) \<Rightarrow> string \<Rightarrow> string \<Rightarrow> string option" where
  "replaceFirst m replacement line =
     (case findMatch m line of
        None \<Rightarrow> None
      | Some (b, x, a) \<Rightarrow> Some (b @ expandReplacement replacement x b a @ a))"

definition replaceUriAttribute :: "string \<Rightarrow> string \<Rightarrow> string" where
  "replaceUriAttribute line newUri =
    (let replacement = ''URI='' @ [CHR 0x22] @ newUri @ [CHR 0x22] in
     case replaceFirst matchQuotedUri replacement line of
       Some r \<Rightarrow> r
     | None \<Rightarrow> (case replaceFirst matchBareUri replacement line of
                  Some r \<Rightarrow> r
                | None \<Rightarrow> line))"

text \<open>A \<open>Map\<close> from line index to local path, filled in list order: the last entry for an
  index stays.\<close>

definition lineMap :: "hls_entry list \<Rightarrow> (nat \<rightharpoonup> string)" where
  "lineMap entries = map_of (rev (map (\<lambda>e. (lineIndex e, localPath e)) entries))"

definition rewriteLine :: "hls_parse \<Rightarrow> nat \<Rightarrow> string \<Rightarrow> string" where
  "rewriteLine st index line =
    (case lineMap (keys st) index of
       Some p \<Rightarrow> replaceUriAttribute line p
     | None \<Rightarrow>
        (case lineMap (maps st) index of
           Some p \<Rightarrow> replaceUriAttribute line p
         | None \<Rightarrow>
            (case lineMap (segments st) index of
               Some p \<Rightarrow> if p = [] then line else p
             | None \<Rightarrow> line)))"

definition rewriteManifest :: "hls_parse \<Rightarrow> string list \<Rightarrow> string list" where
  "rewriteManifest st ls = map (\<lambda>(index, line). rewriteLine st index line) (zip [0..<length ls] ls)"

text \<open>What the function leaves: \<open>null\<close>, an exception, or the path and text of the local
  manifest it wrote and the number of segments.\<close>

record local_playlist =
  playlistPath :: string
  playlistText :: string
  segmentCount :: nat

datatype pool_result = Declined | Rejected string | Engaged local_playlist

text \<open>\<open>fs.mkdir\<close> and \<open>fs.writeFile\<close> may fail; \<open>diskFails path\<close> tells where.\<close>

definition downloadHlsSegmentsParallel ::
  "url_api \<Rightarrow> fetch_env \<Rightarrow> (string \<Rightarrow> string \<Rightarrow> nat \<Rightarrow> fetch_outcome) \<Rightarrow> (string \<Rightarrow> bool)
   \<Rightarrow> (nat \<Rightarrow> nat list \<Rightarrow> nat) \<Rightarrow> (nat \<Rightarrow> bool) \<Rightarrow> string \<Rightarrow> string \<Rightarrow> string \<Rightarrow> pool_result" where
  "downloadHlsSegmentsParallel api env net diskFails sched abortedAt content baseUrl tempDir =
    (case planDownload api content baseUrl of
       None \<Rightarrow> Declined
     | Some st \<Rightarrow>
        let retries = segmentRetries env;
            timeoutMs = segmentTimeoutMs env;
            segs = segments st;
            download = (\<lambda>i. fst (downloadFileWithRetry net (resolved (segs ! i))
                                   (tempDir @ ''/'' @ localPath (segs ! i)) timeoutMs retries 0))
        in if diskFails (tempDir @ ''/segments'')
              \<or> (keyMap st \<noteq> [] \<and> diskFails (tempDir @ ''/keys''))
              \<or> (mapMap st \<noteq> [] \<and> diskFails (tempDir @ ''/maps''))
           then Rejected ''mkdir failed''
           else case fst (downloadAll net timeoutMs retries (tempDir @ ''/keys/'') (keyMap st)) of
              Inl e \<Rightarrow> Rejected e
            | Inr _ \<Rightarrow>
               (case fst (downloadAll net timeoutMs retries (tempDir @ ''/maps/'') (mapMap st)) of
                  Inl e \<Rightarrow> Rejected e
                | Inr _ \<Rightarrow>
                   (case startPool sched download abortedAt (segmentConcurrency env) (length segs) of
                      Inl e \<Rightarrow> Rejected e
                    | Inr _ \<Rightarrow>
                       if diskFails (tempDir @ ''/playlist-local.m3u8'') then Rejected ''write failed''
                       else Engaged \<lparr>playlistPath = tempDir @ ''/playlist-local.m3u8'',
                                     playlistText = joinWith [CHR 0x0A]
                                                      (rewriteManifest st (splitLines content)),
                                     segmentCount = length segs\<rparr>)))"

text \<open>Concrete settings for the pool: a URL class that resolves against one directory,
  a network that always succeeds, round-robin scheduling, and some playlists.\<close>

definition exampleApi :: url_api where
  "exampleApi =
     \<lparr>urlResolve = (\<lambda>u base. Some (''https://cdn.example/v/'' @ u)),
      urlPathname = (\<lambda>u. if startsWith u ''https://cdn.example''
                           then Some (takeWhile (\<lambda>c. c \<noteq> CHR ''?'' \<and> c \<noteq> CHR ''#'') (drop 19 u))
                           else None)\<rparr>"

definition alwaysSaved :: "string \<Rightarrow> string \<Rightarrow> nat \<Rightarrow> fetch_outcome" where
  "alwaysSaved url filePath attempt = Saved"

definition firstInFlight :: "nat \<Rightarrow> nat list \<Rightarrow> nat" where
  "firstInFlight done flying = 0"

definition playlistOf :: "string list \<Rightarrow> string" where
  "playlistOf ls = joinWith [CHR 0x0A] ls"

definition sixSegments :: "string list" where
  "sixSegments = [''#EXTINF:10,'', ''s1.ts'', ''#EXTINF:10,'', ''s2.jpg'', ''#EXTINF:10,'', ''s3'',
                  ''#EXTINF:10,'', ''s4.m4s'', ''#EXTINF:10,'', ''s5.PNG?t=1'', ''#EXTINF:10,'', ''s6.ts'']"


definition byterangeSix :: string where
  "byterangeSix = playlistOf ([''#EXTM3U'', ''#EXT-X-BYTERANGE:100@0''] @ sixSegments
                              @ [''#EXT-X-ENDLIST''])"

definition liveSix :: string where
  "liveSix = playlistOf ([''#EXTM3U''] @ sixSegments)"

definition drmSix :: string where
  "drmSix = playlistOf ([''#EXTM3U'',
              ''#EXT-X-KEY:METHOD=SAMPLE-AES,URI='' @ [CHR 0x22] @ ''skd://k'' @ [CHR 0x22]
                @ '',KEYFORMAT='' @ [CHR 0x22] @ ''com.apple.streamingkeydelivery'' @ [CHR 0x22]]
              @ sixSegments @ [''#EXT-X-ENDLIST''])"

definition vodFive :: string where
  "vodFive = playlistOf ([''#EXTM3U''] @ take 10 sixSegments @ [''#EXT-X-ENDLIST''])"

text \<open>Two playlists with an init map whose URI names an image file; in the second the
  map line carries, before \<open>URI\<close>, another attribute whose name ends in \<open>URI\<close>.\<close>

definition mapPlain :: string where
  "mapPlain = playlistOf ([''#EXTM3U'',
              ''#EXT-X-MAP:URI='' @ [CHR 0x22] @ ''init.jpg'' @ [CHR 0x22]]
              @ sixSegments @ [''#EXT-X-ENDLIST''])"

definition mapXuri :: string where
  "mapXuri = playlistOf ([''#EXTM3U'',
              ''#EXT-X-MAP:XURI='' @ [CHR 0x22] @ ''a'' @ [CHR 0x22]
                @ '',URI='' @ [CHR 0x22] @ ''init.jpg'' @ [CHR 0x22]]
              @ sixSegments @ [''#EXT-X-ENDLIST''])"









text \<open>A server that answers 503 to every request, and one that does so for the fourth
  segment only.\<close>

definition always503 :: "string \<Rightarrow> string \<Rightarrow> nat \<Rightarrow> fetch_outcome" where
  "always503 url filePath attempt = Failure ''HTTP 503'' False"


section \<open>Playlist resolver: disguised segments\<close>





































definition segmentTagLine :: "string \<Rightarrow> bool" where
  "segmentTagLine line = (startsWith (trim line) ''#EXTINF'' \<or> startsWith (trim line) ''#EXT-X-BYTERANGE'')"

section \<open>Verified properties\<close>

subsection \<open>Prefixes\<close>

lemma startsWith_iff: "startsWith s p \<longleftrightarrow> (\<exists>r. s = p @ r)"
  by (induction s p rule: startsWith.induct) auto

lemma tag_prefix_hash: "startsWith l (CHR ''#'' # t) \<Longrightarrow> startsWith l ''#''"
  by (auto simp: startsWith_iff)


subsection \<open>Disguised-segment repair\<close>

lemma segmentTag_not_segment: "segmentTagLine line \<Longrightarrow> \<not> isSegmentLine line"
  by (auto simp: segmentTagLine_def isSegmentLine_def dest: tag_prefix_hash)













subsection \<open>Quota manager\<close>

lemma check_only_frame:
  "checkOnly options \<Longrightarrow> snd (checkAndConsumeQuota options now d) = d"
  by (simp add: checkAndConsumeQuota_def Let_def split: sum.splits)

lemma counterOf_nonneg: "0 \<le> counterOf d user now"
  by (simp add: counterOf_def currentCountOf_def)

lemma consume_step:
  assumes "available d" "counterOf d user now = c" "c < perDay"
  shows "checkAndConsumeQuota (consumeCall user perDay) now d =
           (\<lparr>allowed = True, remaining = Some (perDay - (c + 1)), reason = None,
             cacheKey = Some (quotaCacheKey user now),
             expireSeconds = Some (secondsUntilNextDay now)\<rparr>,
            d\<lparr>store := (store d)(quotaCacheKey user now \<mapsto>
                           (VNum (c + 1), secondsUntilNextDay now))\<rparr>)"
  using assms counterOf_nonneg[of d user now]
  by (auto simp: checkAndConsumeQuota_def consumeCall_def Let_def getCache_def setCache_def
                 counterOf_def)

lemma consume_denied:
  assumes "available d" "perDay \<le> counterOf d user now"
  shows "checkAndConsumeQuota (consumeCall user perDay) now d =
           (\<lparr>allowed = False, remaining = Some 0, reason = Some QuotaExhausted,
             cacheKey = None, expireSeconds = None\<rparr>, d)"
  using assms counterOf_nonneg[of d user now]
  by (auto simp: checkAndConsumeQuota_def consumeCall_def Let_def getCache_def counterOf_def)

lemma check_step:
  assumes "available d" "counterOf d user now = c" "c < perDay"
  shows "checkAndConsumeQuota (checkCall user perDay) now d =
           (\<lparr>allowed = True, remaining = Some (perDay - c), reason = None,
             cacheKey = Some (quotaCacheKey user now),
             expireSeconds = Some (secondsUntilNextDay now)\<rparr>, d)"
  using assms counterOf_nonneg[of d user now]
  by (auto simp: checkAndConsumeQuota_def checkCall_def Let_def getCache_def counterOf_def)

lemma counterOf_upd:
  "counterOf (d\<lparr>store := (store d)(quotaCacheKey user now \<mapsto> (VNum n, t))\<rparr>) user now = max 0 n"
  by (simp add: counterOf_def currentCountOf_def)

lemma secondsUntilNextDay_pos: "0 < secondsUntilNextDay now"
  by (simp add: secondsUntilNextDay_def)

lemma refund_step:
  assumes "available d" "cacheKey r = Some (quotaCacheKey user now)"
    and "expireSeconds r = Some t" "0 < t"
  shows "refundQuota True r d =
          (if 0 < counterOf d user now
           then d\<lparr>store := (store d)(quotaCacheKey user now \<mapsto>
                          (VNum (counterOf d user now - 1), t))\<rparr>
           else d)"
  using assms
  by (auto simp: refundQuota_def quotaCacheKey_def getCache_def setCache_def counterOf_def Let_def)

lemma refund_writes_nonneg:
  "store (refundQuota en r d) k = Some (VNum v, t) \<Longrightarrow> store d k = Some (VNum v, t) \<or> 0 \<le> v"
  by (auto simp: refundQuota_def getCache_def setCache_def Let_def
           split: option.splits if_splits sum.splits)

text \<open>
  Claim C2. With the quota enabled, a daily limit of 3 and a counter that reads 0, three
  consuming calls are allowed and report 2, 1 and 0 remaining; the fourth is denied and
  leaves the cache as it was; refunding the third call's unit brings the counter from 3
  to 2, and the next check-only call reports 1 remaining and leaves the cache as it was.
  In general a check-only call returns the cache unchanged, and a refund only ever
  writes a counter that is not negative.
\<close>

theorem quota_three_then_denied_then_refund:
  assumes av: "available d0" and zero: "counterOf d0 user now = 0"
  shows "(case checkAndConsumeQuota (consumeCall user 3) now d0 of (r1, d1) \<Rightarrow>
          case checkAndConsumeQuota (consumeCall user 3) now d1 of (r2, d2) \<Rightarrow>
          case checkAndConsumeQuota (consumeCall user 3) now d2 of (r3, d3) \<Rightarrow>
          case checkAndConsumeQuota (consumeCall user 3) now d3 of (r4, d4) \<Rightarrow>
          case checkAndConsumeQuota (checkCall user 3) now (refundQuota True r3 d4) of (r5, d5) \<Rightarrow>
            allowed r1 \<and> remaining r1 = Some 2 \<and>
            allowed r2 \<and> remaining r2 = Some 1 \<and>
            allowed r3 \<and> remaining r3 = Some 0 \<and>
            \<not> allowed r4 \<and> d4 = d3 \<and> counterOf d4 user now = 3 \<and>
            counterOf (refundQuota True r3 d4) user now = 2 \<and>
            allowed r5 \<and> remaining r5 = Some 1 \<and> d5 = refundQuota True r3 d4)
         \<and> (\<forall>options clk d. checkOnly options \<longrightarrow> snd (checkAndConsumeQuota options clk d) = d)
         \<and> (\<forall>en r d k v t. store (refundQuota en r d) k = Some (VNum v, t) \<longrightarrow>
               store d k = Some (VNum v, t) \<or> 0 \<le> v)"
proof -
  let ?k = "quotaCacheKey user now" and ?t = "secondsUntilNextDay now"
  define d1 where "d1 = d0\<lparr>store := (store d0)(?k \<mapsto> (VNum 1, ?t))\<rparr>"
  define d2 where "d2 = d1\<lparr>store := (store d1)(?k \<mapsto> (VNum 2, ?t))\<rparr>"
  define d3 where "d3 = d2\<lparr>store := (store d2)(?k \<mapsto> (VNum 3, ?t))\<rparr>"
  define d5 where "d5 = d3\<lparr>store := (store d3)(?k \<mapsto> (VNum 2, ?t))\<rparr>"
  define r3 where "r3 = \<lparr>allowed = True, remaining = Some (0::int), reason = None,
             cacheKey = Some ?k, expireSeconds = Some ?t\<rparr>"
  have a1: "available d1" and c1: "counterOf d1 user now = 1"
    using av by (simp_all add: d1_def counterOf_upd)
  have a2: "available d2" and c2: "counterOf d2 user now = 2"
    using a1 by (simp_all add: d2_def counterOf_upd)
  have a3: "available d3" and c3: "counterOf d3 user now = 3"
    using a2 by (simp_all add: d3_def counterOf_upd)
  have a5: "available d5" and c5: "counterOf d5 user now = 2"
    using a3 by (simp_all add: d5_def counterOf_upd)
  have s1: "checkAndConsumeQuota (consumeCall user 3) now d0 =
      (\<lparr>allowed = True, remaining = Some 2, reason = None, cacheKey = Some ?k,
        expireSeconds = Some ?t\<rparr>, d1)"
    using consume_step[OF av zero, of 3] by (simp add: d1_def)
  have s2: "checkAndConsumeQuota (consumeCall user 3) now d1 =
      (\<lparr>allowed = True, remaining = Some 1, reason = None, cacheKey = Some ?k,
        expireSeconds = Some ?t\<rparr>, d2)"
    using consume_step[OF a1 c1, of 3] by (simp add: d2_def)
  have s3: "checkAndConsumeQuota (consumeCall user 3) now d2 = (r3, d3)"
    using consume_step[OF a2 c2, of 3] by (simp add: d3_def r3_def)
  have s4: "checkAndConsumeQuota (consumeCall user 3) now d3 =
      (\<lparr>allowed = False, remaining = Some 0, reason = Some QuotaExhausted,
        cacheKey = None, expireSeconds = None\<rparr>, d3)"
    using consume_denied[OF a3, of 3 user now] c3 by simp
  have rf: "refundQuota True r3 d3 = d5"
    using refund_step[OF a3, of r3 user now ?t] c3 secondsUntilNextDay_pos[of now]
    by (simp add: r3_def d5_def)
  have s5: "checkAndConsumeQuota (checkCall user 3) now d5 =
      (\<lparr>allowed = True, remaining = Some 1, reason = None, cacheKey = Some ?k,
        expireSeconds = Some ?t\<rparr>, d5)"
    using check_step[OF a5 c5, of 3] by simp
  have scenario: "(case checkAndConsumeQuota (consumeCall user 3) now d0 of (r1, d1) \<Rightarrow>
          case checkAndConsumeQuota (consumeCall user 3) now d1 of (r2, d2) \<Rightarrow>
          case checkAndConsumeQuota (consumeCall user 3) now d2 of (r3, d3) \<Rightarrow>
          case checkAndConsumeQuota (consumeCall user 3) now d3 of (r4, d4) \<Rightarrow>
          case checkAndConsumeQuota (checkCall user 3) now (refundQuota True r3 d4) of (r5, d5) \<Rightarrow>
            allowed r1 \<and> remaining r1 = Some 2 \<and>
            allowed r2 \<and> remaining r2 = Some 1 \<and>
            allowed r3 \<and> remaining r3 = Some 0 \<and>
            \<not> allowed r4 \<and> d4 = d3 \<and> counterOf d4 user now = 3 \<and>
            counterOf (refundQuota True r3 d4) user now = 2 \<and>
            allowed r5 \<and> remaining r5 = Some 1 \<and> d5 = refundQuota True r3 d4)"
    by (simp add: s1 s2 s3 s4 rf s5 c3 c5) (simp add: r3_def)
  show ?thesis
    using scenario check_only_frame refund_writes_nonneg by blast
qed

theorem quota_three_then_denied_then_refund_witness:
  "available db0 \<and> counterOf db0 ''alice'' noon = 0 \<and>
   remaining (fst (checkAndConsumeQuota (consumeCall ''alice'' 3) noon db0)) = Some 2 \<and>
   snd (checkAndConsumeQuota (checkCall ''alice'' 3) noon db0) = db0"
proof -
  have av: "available db0" by (simp add: db0_def)
  have z: "counterOf db0 ''alice'' noon = 0"
    by (simp add: db0_def counterOf_def currentCountOf_def)
  have ck: "checkOnly (checkCall ''alice'' 3)" by (simp add: checkCall_def)
  from quota_three_then_denied_then_refund[OF av z] ck show ?thesis
    using av z by (auto split: prod.splits)
qed

subsection \<open>Transcode driver: argument narrowing\<close>

lemma narrowOptions_nil: "narrowOptions st [] = (st, False)"
  by (simp add: narrowOptions_def)

lemma loop_unfold:
  "narrowingLoop spawn job st res k =
     (if retryNeeded st res k
      then \<lparr>invState = narrowedState st res,
            invArgs = fst (runFfmpeg spawn job (k + 1) (narrowedState st res)),
            invResult = snd (runFfmpeg spawn job (k + 1) (narrowedState st res))\<rparr>
           # narrowingLoop spawn job (narrowedState st res)
               (snd (runFfmpeg spawn job (k + 1) (narrowedState st res))) (k + 1)
      else [])"
  by (subst narrowingLoop.simps)
     (auto simp: retryNeeded_def narrowedState_def Let_def narrowOptions_nil
           split: option.splits prod.splits)

lemma loop_length: "length (narrowingLoop spawn job st res k) \<le> 3 - k"
proof (induction "3 - k" arbitrary: st res k)
  case 0
  then have "\<not> retryNeeded st res k" by (simp add: retryNeeded_def)
  then show ?case by (subst loop_unfold) simp
next
  case (Suc n)
  show ?case
  proof (cases "retryNeeded st res k")
    case False
    then show ?thesis by (subst loop_unfold) simp
  next
    case True
    have "n = 3 - (k + 1)" using Suc.hyps(2) by simp
    from Suc.hyps(1)[OF this]
    have "length (narrowingLoop spawn job (narrowedState st res)
               (snd (runFfmpeg spawn job (k + 1) (narrowedState st res))) (k + 1)) \<le> 3 - (k + 1)" .
    then show ?thesis using True Suc.hyps(2) by (subst loop_unfold) simp
  qed
qed

lemma loop_steps:
  "Suc i < length (\<lparr>invState = st, invArgs = a, invResult = res\<rparr> # narrowingLoop spawn job st res k) \<Longrightarrow>
     retryNeeded (invState ((\<lparr>invState = st, invArgs = a, invResult = res\<rparr>
                              # narrowingLoop spawn job st res k) ! i))
                 (invResult ((\<lparr>invState = st, invArgs = a, invResult = res\<rparr>
                              # narrowingLoop spawn job st res k) ! i)) (k + i)
   \<and> invState ((\<lparr>invState = st, invArgs = a, invResult = res\<rparr>
                  # narrowingLoop spawn job st res k) ! Suc i)
       = narrowedState (invState ((\<lparr>invState = st, invArgs = a, invResult = res\<rparr>
                                    # narrowingLoop spawn job st res k) ! i))
                       (invResult ((\<lparr>invState = st, invArgs = a, invResult = res\<rparr>
                                    # narrowingLoop spawn job st res k) ! i))"
proof (induction i arbitrary: st a res k)
  case 0
  have ne: "retryNeeded st res k"
    using 0 by (subst (asm) loop_unfold) (auto split: if_splits)
  then show ?case by (subst loop_unfold, subst loop_unfold) simp
next
  case (Suc j)
  have ne: "retryNeeded st res k"
    using Suc.prems by (subst (asm) loop_unfold) (auto split: if_splits)
  let ?s = "narrowedState st res"
  let ?a = "fst (runFfmpeg spawn job (k + 1) ?s)" and ?r = "snd (runFfmpeg spawn job (k + 1) ?s)"
  have unf: "narrowingLoop spawn job st res k
       = \<lparr>invState = ?s, invArgs = ?a, invResult = ?r\<rparr> # narrowingLoop spawn job ?s ?r (k + 1)"
    using ne by (subst loop_unfold) simp
  have "Suc j < length (\<lparr>invState = ?s, invArgs = ?a, invResult = ?r\<rparr>
                         # narrowingLoop spawn job ?s ?r (k + 1))"
    using Suc.prems unf by simp
  from Suc.IH[OF this] show ?case unfolding unf by simp
qed

lemma loop_continues:
  "i < length (\<lparr>invState = st, invArgs = a, invResult = res\<rparr> # narrowingLoop spawn job st res k) \<Longrightarrow>
   retryNeeded (invState ((\<lparr>invState = st, invArgs = a, invResult = res\<rparr>
                              # narrowingLoop spawn job st res k) ! i))
               (invResult ((\<lparr>invState = st, invArgs = a, invResult = res\<rparr>
                              # narrowingLoop spawn job st res k) ! i)) (k + i) \<Longrightarrow>
   Suc i < length (\<lparr>invState = st, invArgs = a, invResult = res\<rparr> # narrowingLoop spawn job st res k)"
proof (induction i arbitrary: st a res k)
  case 0
  then have "retryNeeded st res k" by simp
  then show ?case by (subst loop_unfold) simp
next
  case (Suc j)
  have ne: "retryNeeded st res k"
    using Suc.prems(1) by (subst (asm) loop_unfold) (auto split: if_splits)
  let ?s = "narrowedState st res"
  let ?a = "fst (runFfmpeg spawn job (k + 1) ?s)" and ?r = "snd (runFfmpeg spawn job (k + 1) ?s)"
  have unf: "narrowingLoop spawn job st res k
       = \<lparr>invState = ?s, invArgs = ?a, invResult = ?r\<rparr> # narrowingLoop spawn job ?s ?r (k + 1)"
    using ne by (subst loop_unfold) simp
  have a: "j < length (\<lparr>invState = ?s, invArgs = ?a, invResult = ?r\<rparr>
                         # narrowingLoop spawn job ?s ?r (k + 1))"
    using Suc.prems(1) unf by simp
  have b: "retryNeeded (invState ((\<lparr>invState = ?s, invArgs = ?a, invResult = ?r\<rparr>
                              # narrowingLoop spawn job ?s ?r (k + 1)) ! j))
               (invResult ((\<lparr>invState = ?s, invArgs = ?a, invResult = ?r\<rparr>
                              # narrowingLoop spawn job ?s ?r (k + 1)) ! j)) (k + 1 + j)"
    using Suc.prems(2) unfolding unf by simp
  from Suc.IH[OF a b] show ?case unfolding unf by simp
qed

lemma runFfmpeg_spawned:
  "spawned spawn job k \<lparr>invState = st, invArgs = fst (runFfmpeg spawn job k st),
                         invResult = snd (runFfmpeg spawn job k st)\<rparr>"
  by (simp add: spawned_def runFfmpeg_def Let_def)

lemma loop_spawned:
  "i < length (narrowingLoop spawn job st res k) \<Longrightarrow>
     spawned spawn job (k + 1 + i) (narrowingLoop spawn job st res k ! i)"
proof (induction i arbitrary: st res k)
  case 0
  have ne: "retryNeeded st res k"
    using 0 by (subst (asm) loop_unfold) (auto split: if_splits)
  then show ?case using runFfmpeg_spawned by (subst loop_unfold) simp
next
  case (Suc j)
  have ne: "retryNeeded st res k"
    using Suc.prems by (subst (asm) loop_unfold) (auto split: if_splits)
  let ?s = "narrowedState st res"
  let ?a = "fst (runFfmpeg spawn job (k + 1) ?s)" and ?r = "snd (runFfmpeg spawn job (k + 1) ?s)"
  have unf: "narrowingLoop spawn job st res k
       = \<lparr>invState = ?s, invArgs = ?a, invResult = ?r\<rparr> # narrowingLoop spawn job ?s ?r (k + 1)"
    using ne by (subst loop_unfold) simp
  have "j < length (narrowingLoop spawn job ?s ?r (k + 1))" using Suc.prems unf by simp
  from Suc.IH[OF this] show ?case unfolding unf by simp
qed

lemma invocations_unfold:
  "ffmpegInvocations spawn job
     = \<lparr>invState = initialOptions job,
        invArgs = fst (runFfmpeg spawn job 0 (initialOptions job)),
        invResult = snd (runFfmpeg spawn job 0 (initialOptions job))\<rparr>
       # narrowingLoop spawn job (initialOptions job)
           (snd (runFfmpeg spawn job 0 (initialOptions job))) 0"
  by (simp add: ffmpegInvocations_def Let_def case_prod_beta)

lemma invocations_length: "length (ffmpegInvocations spawn job) \<le> 4"
  using loop_length[of spawn job "initialOptions job"
      "snd (runFfmpeg spawn job 0 (initialOptions job))" 0]
  by (simp add: invocations_unfold)

lemma invocations_steps:
  assumes "Suc i < length (ffmpegInvocations spawn job)"
  shows "retryNeeded (invState (ffmpegInvocations spawn job ! i))
                     (invResult (ffmpegInvocations spawn job ! i)) i
       \<and> invState (ffmpegInvocations spawn job ! Suc i)
           = narrowedState (invState (ffmpegInvocations spawn job ! i))
                           (invResult (ffmpegInvocations spawn job ! i))"
  using loop_steps[of i "initialOptions job" "fst (runFfmpeg spawn job 0 (initialOptions job))"
      "snd (runFfmpeg spawn job 0 (initialOptions job))" spawn job 0] assms
  unfolding invocations_unfold by simp

lemma invocations_continue:
  assumes "i < length (ffmpegInvocations spawn job)"
    and "retryNeeded (invState (ffmpegInvocations spawn job ! i))
                     (invResult (ffmpegInvocations spawn job ! i)) i"
  shows "Suc i < length (ffmpegInvocations spawn job)"
  using loop_continues[of i "initialOptions job" "fst (runFfmpeg spawn job 0 (initialOptions job))"
      "snd (runFfmpeg spawn job 0 (initialOptions job))" spawn job 0] assms
  unfolding invocations_unfold by simp

lemma invocations_spawned:
  assumes "i < length (ffmpegInvocations spawn job)"
  shows "spawned spawn job i (ffmpegInvocations spawn job ! i)"
proof (cases i)
  case 0
  then show ?thesis using runFfmpeg_spawned by (simp add: invocations_unfold)
next
  case (Suc j)
  then have "j < length (narrowingLoop spawn job (initialOptions job)
           (snd (runFfmpeg spawn job 0 (initialOptions job))) 0)"
    using assms by (simp add: invocations_unfold)
  from loop_spawned[OF this] show ?thesis using Suc by (simp add: invocations_unfold)
qed

lemma startsWithCI_append: "startsWithCI (p @ s) p"
  by (induction p) simp_all

lemma startsWithCI_take:
  "startsWithCI s p \<Longrightarrow> n \<ge> length p \<Longrightarrow> startsWithCI (take n s) p"
proof (induction s p arbitrary: n rule: startsWithCI.induct)
  case (1 s)
  show ?case by simp
next
  case (2 p ps)
  then show ?case by simp
next
  case (3 c cs p ps)
  then obtain m where m: "n = Suc m" by (cases n) auto
  show ?case using 3 m by (simp split: if_splits)
qed

lemma startsWithCI_extend:
  "startsWithCI s p \<Longrightarrow> startsWithCI (s @ t) p"
  by (induction s p rule: startsWithCI.induct) (simp_all split: if_splits)

lemma containsCI_drop: "startsWithCI (drop k s) p \<Longrightarrow> k \<le> length s \<Longrightarrow> p \<noteq> [] \<Longrightarrow> containsCI s p"
proof (induction s arbitrary: k)
  case Nil
  then show ?case by (cases p) simp_all
next
  case (Cons c cs)
  show ?case
  proof (cases k)
    case 0
    then show ?thesis using Cons.prems by simp
  next
    case (Suc j)
    then have "containsCI cs p" using Cons by simp
    then show ?thesis by simp
  qed
qed

lemma containsCI_witness: "containsCI s p \<Longrightarrow> \<exists>k \<le> length s. startsWithCI (drop k s) p"
proof (induction s)
  case Nil
  then show ?case by simp
next
  case (Cons c cs)
  show ?case
  proof (cases "startsWithCI (c # cs) p")
    case True
    then have "startsWithCI (drop 0 (c # cs)) p" by simp
    then show ?thesis by blast
  next
    case False
    then have "containsCI cs p" using Cons.prems by simp
    then obtain k where "k \<le> length cs" "startsWithCI (drop k cs) p" using Cons.IH by blast
    then have "Suc k \<le> length (c # cs)" "startsWithCI (drop (Suc k) (c # cs)) p" by simp_all
    then show ?thesis by blast
  qed
qed

text \<open>The scan of a global pattern skips what no match begins in, and returns the
  capture of a match at the head.\<close>

lemma scanAll_skip:
  "(\<forall>k < length pre. m (drop k (pre @ t)) = None) \<Longrightarrow> scanAll m (pre @ t) = scanAll m t"
proof (induction pre)
  case Nil
  show ?case by simp
next
  case (Cons c cs)
  have h: "m (c # cs @ t) = None" using Cons.prems[rule_format, of 0] by simp
  have "\<forall>k < length cs. m (drop k (cs @ t)) = None"
  proof (intro allI impI)
    fix k assume "k < length cs"
    then show "m (drop k (cs @ t)) = None" using Cons.prems[rule_format, of "Suc k"] by simp
  qed
  then have "scanAll m (cs @ t) = scanAll m t" by (rule Cons.IH)
  then show ?case using h by simp
qed

lemma scanAll_head: "m s = Some (cap, rest) \<Longrightarrow> s \<noteq> [] \<Longrightarrow> cap \<in> set (scanAll m s)"
  by (cases s) auto

lemma scanAll_none: "(\<forall>k \<le> length s. m (drop k s) = None) \<Longrightarrow> scanAll m s = []"
proof (induction s)
  case Nil
  show ?case by simp
next
  case (Cons c cs)
  have h: "m (c # cs) = None" using Cons.prems[rule_format, of 0] by simp
  have "\<forall>k \<le> length cs. m (drop k cs) = None"
  proof (intro allI impI)
    fix k assume "k \<le> length cs"
    then show "m (drop k cs) = None" using Cons.prems[rule_format, of "Suc k"] by simp
  qed
  then have "scanAll m cs = []" by (rule Cons.IH)
  then show ?case using h by simp
qed

text \<open>A pattern that opens with the text \<open>lit\<close> finds the capture of a message that
  starts with \<open>lit\<close>, when \<open>lit\<close> does not occur earlier.\<close>

lemma scanAll_finds:
  assumes opens: "\<And>s. m s \<noteq> None \<Longrightarrow> startsWithCI s lit"
    and lit: "lit \<noteq> []"
    and here: "m (lit @ body) = Some (cap, rest)"
    and early: "noEarlier lit pre"
  shows "cap \<in> set (scanAll m (pre @ lit @ body))"
proof -
  have "\<forall>k < length pre. m (drop k (pre @ lit @ body)) = None"
  proof (intro allI impI, rule ccontr)
    fix k assume k: "k < length pre" and mk: "m (drop k (pre @ lit @ body)) \<noteq> None"
    have s: "startsWithCI (drop k (pre @ lit @ body)) lit" by (rule opens[OF mk])
    have d: "drop k (pre @ lit @ body) = drop k pre @ lit @ body" using k by simp
    have "take (length lit) (drop k pre @ lit @ body)
            = take (length lit) (drop k pre @ butlast lit)"
    proof -
      have n: "length lit - length (drop k pre) \<le> length (butlast lit)" using k lit by simp
      have "take (length lit - length (drop k pre)) (lit @ body)
              = take (length lit - length (drop k pre)) (butlast lit)"
        using n lit
        by (metis append_butlast_last_id append_assoc append_eq_conv_conj take_append
                  take_all_iff diff_is_0_eq' take_0 append_Nil2 append_take_drop_id)
      then show ?thesis by simp
    qed
    moreover have "startsWithCI (take (length lit) (drop k pre @ lit @ body)) lit"
      by (rule startsWithCI_take[OF s[unfolded d] order_refl])
    ultimately have "startsWithCI (take (length lit) (drop k pre @ butlast lit)) lit" by simp
    then have "startsWithCI (take (length lit) (drop k pre @ butlast lit)
                             @ drop (length lit) (drop k pre @ butlast lit)) lit"
      by (rule startsWithCI_extend)
    then have "startsWithCI (drop k pre @ butlast lit) lit"
      by (simp only: append_take_drop_id)
    then have "startsWithCI (drop k (pre @ butlast lit)) lit" using k by simp
    then have "containsCI (pre @ butlast lit) lit"
      using k lit by (intro containsCI_drop[of k]) simp_all
    then show False using early by (simp add: noEarlier_def)
  qed
  then have "scanAll m (pre @ lit @ body) = scanAll m (lit @ body)" by (rule scanAll_skip)
  moreover have "cap \<in> set (scanAll m (lit @ body))"
    using scanAll_head[of m "lit @ body" cap rest] here lit by simp
  ultimately show ?thesis by simp
qed

text \<open>The three patterns open with their texts, and capture a plain option name from
  their messages.\<close>

lemma matchUnrecognized_opens:
  "matchUnrecognized s \<noteq> None \<Longrightarrow> startsWithCI s (''Unrecognized option '' @ [CHR 0x27])"
  by (simp add: matchUnrecognized_def Let_def split: if_splits)

lemma matchNotFound_opens: "matchNotFound s \<noteq> None \<Longrightarrow> startsWithCI s ''Option ''"
  by (simp add: matchNotFound_def Let_def split: if_splits)

lemma matchUnknown_opens: "matchUnknown s \<noteq> None \<Longrightarrow> startsWithCI s ''Unknown option ''"
  by (simp add: matchUnknown_def Let_def split: if_splits)

lemma plainOption_chars:
  assumes "plainOption opt"
  shows "opt \<noteq> []" "hd opt \<noteq> CHR ''-''" "CHR 0x27 \<notin> set opt" "CHR 0x22 \<notin> set opt"
    "\<forall>c \<in> set opt. \<not> isSpace c" "CHR 0x20 \<notin> set opt"
  using assms by (auto simp: plainOption_def list_all_iff isSpace_def)

lemma takeWhile_stop: "\<forall>c \<in> set xs. P c \<Longrightarrow> \<not> P y \<Longrightarrow> takeWhile P (xs @ y # ys) = xs"
  by (induction xs) simp_all

lemma dropWhile_stop: "\<forall>c \<in> set xs. P c \<Longrightarrow> \<not> P y \<Longrightarrow> dropWhile P (xs @ y # ys) = y # ys"
  by (induction xs) simp_all

lemma matchUnrecognized_message:
  assumes "plainOption opt"
  shows "matchUnrecognized ((''Unrecognized option '' @ [CHR 0x27]) @ opt @ [CHR 0x27] @ post)
           = Some (opt, post)"
proof -
  note c = plainOption_chars[OF assms]
  have a: "\<forall>x \<in> set opt. x \<noteq> CHR 0x27" using c(3) by auto
  have t: "takeWhile (\<lambda>c. c \<noteq> CHR 0x27) (opt @ CHR 0x27 # post) = opt"
    by (rule takeWhile_stop[OF a]) simp
  have d: "dropWhile (\<lambda>c. c \<noteq> CHR 0x27) (opt @ CHR 0x27 # post) = CHR 0x27 # post"
    by (rule dropWhile_stop[OF a]) simp
  have s: "startsWithCI ((''Unrecognized option '' @ [CHR 0x27]) @ opt @ [CHR 0x27] @ post)
             (''Unrecognized option '' @ [CHR 0x27])"
    by (rule startsWithCI_append)
  show ?thesis
    unfolding matchUnrecognized_def Let_def using s t d c(1) by simp
qed

lemma matchNotFound_message:
  assumes "plainOption opt"
  shows "matchNotFound (''Option '' @ opt @ '' not found'' @ post) = Some (opt, post)"
proof -
  note c = plainOption_chars[OF assms]
  have a: "\<forall>x \<in> set opt. x \<noteq> CHR 0x20" using c(6) by auto
  have t: "takeWhile (\<lambda>c. c \<noteq> CHR 0x20) (opt @ CHR 0x20 # ''not found'' @ post) = opt"
    by (rule takeWhile_stop[OF a]) simp
  have d: "dropWhile (\<lambda>c. c \<noteq> CHR 0x20) (opt @ CHR 0x20 # ''not found'' @ post)
             = CHR 0x20 # ''not found'' @ post"
    by (rule dropWhile_stop[OF a]) simp
  have s: "startsWithCI (''Option '' @ opt @ '' not found'' @ post) ''Option ''"
    by (rule startsWithCI_append)
  have s2: "startsWithCI ('' not found'' @ post) '' not found''" by (rule startsWithCI_append)
  show ?thesis
    unfolding matchNotFound_def Let_def using s s2 t d c(1) by simp
qed

lemma matchUnknown_message:
  assumes "plainOption opt"
  shows "matchUnknown ((''Unknown option '') @ [CHR 0x22] @ opt @ [CHR 0x22] @ post)
           = Some (opt, post)"
proof -
  note c = plainOption_chars[OF assms]
  have a: "\<forall>x \<in> set opt. x \<noteq> CHR 0x22 \<and> \<not> isSpace x" using c(4,5) by auto
  have t: "takeWhile (\<lambda>c. c \<noteq> CHR 0x22 \<and> \<not> isSpace c) (opt @ CHR 0x22 # post) = opt"
    by (rule takeWhile_stop[OF a]) simp
  have d: "dropWhile (\<lambda>c. c \<noteq> CHR 0x22 \<and> \<not> isSpace c) (opt @ CHR 0x22 # post) = CHR 0x22 # post"
    by (rule dropWhile_stop[OF a]) simp
  have s: "startsWithCI ((''Unknown option '') @ [CHR 0x22] @ opt @ [CHR 0x22] @ post) ''Unknown option ''"
    by (rule startsWithCI_append)
  show ?thesis
    unfolding matchUnknown_def Let_def using s t d c(1) by simp
qed

lemma plainOption_kept:
  assumes "plainOption opt"
  shows "trim (dropWhile (\<lambda>c. c = CHR ''-'') opt) = opt"
proof -
  note c = plainOption_chars[OF assms]
  obtain x xs where o: "opt = x # xs" using c(1) by (cases opt) auto
  have d: "dropWhile (\<lambda>c. c = CHR ''-'') opt = opt" using o c(2) by simp
  have h: "\<not> isSpace x" using c(5) o by simp
  have l: "\<not> isSpace (last opt)" using c(5) c(1) last_in_set by blast
  have "rev opt = rev (butlast opt @ [last opt])" using c(1) by simp
  then have r: "rev opt = last opt # rev (butlast opt)" by simp
  have "dropWhile isSpace opt = opt" using o h by simp
  moreover have "dropWhile isSpace (rev opt) = rev opt" using l by (subst r, subst r) simp
  ultimately show ?thesis using d by (simp add: trim_def)
qed

lemma addOption_grows: "set acc \<subseteq> set (foldl addOption acc caps)"
proof (induction caps arbitrary: acc)
  case Nil
  show ?case by simp
next
  case (Cons c cs)
  have "set acc \<subseteq> set (addOption acc c)" by (auto simp: addOption_def Let_def)
  then show ?case using Cons[of "addOption acc c"] by auto
qed

lemma addOption_adds:
  "cap \<in> set caps \<Longrightarrow> trim (dropWhile (\<lambda>c. c = CHR ''-'') cap) \<noteq> [] \<Longrightarrow>
     trim (dropWhile (\<lambda>c. c = CHR ''-'') cap) \<in> set (foldl addOption acc caps)"
proof (induction caps arbitrary: acc)
  case Nil
  then show ?case by simp
next
  case (Cons c cs)
  show ?case
  proof (cases "cap = c")
    case True
    have "trim (dropWhile (\<lambda>c. c = CHR ''-'') cap) \<in> set (addOption acc c)"
      using True Cons.prems(2) by (auto simp: addOption_def Let_def)
    then show ?thesis using addOption_grows[of "addOption acc c" cs] by auto
  next
    case False
    then have "cap \<in> set cs" using Cons.prems(1) by simp
    then show ?thesis using Cons.IH[of "addOption acc c"] Cons.prems(2) by simp
  qed
qed

lemma addOption_only:
  "opt \<in> set (foldl addOption acc caps) \<Longrightarrow>
     opt \<in> set acc \<or> (\<exists>cap \<in> set caps. opt = trim (dropWhile (\<lambda>c. c = CHR ''-'') cap))"
proof (induction caps arbitrary: acc)
  case Nil
  then show ?case by simp
next
  case (Cons c cs)
  from Cons.IH[of "addOption acc c"] Cons.prems
  have "opt \<in> set (addOption acc c)
        \<or> (\<exists>cap \<in> set cs. opt = trim (dropWhile (\<lambda>c. c = CHR ''-'') cap))" by simp
  then show ?case by (auto simp: addOption_def Let_def split: if_splits)
qed

lemma detects_plain:
  assumes "plainOption opt"
    and "opt \<in> set (scanAll matchUnrecognized err) \<union> set (scanAll matchNotFound err)
               \<union> set (scanAll matchUnknown err)"
  shows "opt \<in> set (detectUnsupportedFfmpegOptions err)"
proof -
  have "trim (dropWhile (\<lambda>c. c = CHR ''-'') opt) \<in> set (detectUnsupportedFfmpegOptions err)"
    unfolding detectUnsupportedFfmpegOptions_def
    using assms plainOption_kept[OF assms(1)] plainOption_chars(1)[OF assms(1)]
    by (intro addOption_adds) auto
  then show ?thesis using plainOption_kept[OF assms(1)] by simp
qed

lemma detect_unrecognized:
  assumes "plainOption opt" and "noEarlier (''Unrecognized option '' @ [CHR 0x27]) pre"
  shows "opt \<in> set (detectUnsupportedFfmpegOptions (pre @ unrecognizedMessage opt @ post))"
proof -
  have "opt \<in> set (scanAll matchUnrecognized
                     (pre @ (''Unrecognized option '' @ [CHR 0x27]) @ opt @ [CHR 0x27] @ post))"
    using matchUnrecognized_opens matchUnrecognized_message[OF assms(1), of post] assms(2)
    by (intro scanAll_finds[where m = matchUnrecognized and lit = "''Unrecognized option '' @ [CHR 0x27]"
                              and body = "opt @ [CHR 0x27] @ post" and cap = opt and rest = post])
       simp_all
  then show ?thesis using detects_plain[OF assms(1)] by (simp add: unrecognizedMessage_def)
qed

lemma detect_notFound:
  assumes "plainOption opt" and "noEarlier ''Option '' pre"
  shows "opt \<in> set (detectUnsupportedFfmpegOptions (pre @ notFoundMessage opt @ post))"
proof -
  have "opt \<in> set (scanAll matchNotFound (pre @ ''Option '' @ opt @ '' not found'' @ post))"
    using matchNotFound_opens matchNotFound_message[OF assms(1), of post] assms(2)
    by (intro scanAll_finds[where m = matchNotFound and lit = "''Option ''"
                              and body = "opt @ '' not found'' @ post" and cap = opt and rest = post])
       simp_all
  then show ?thesis using detects_plain[OF assms(1)] by (simp add: notFoundMessage_def)
qed

lemma detect_unknown:
  assumes "plainOption opt" and "noEarlier ''Unknown option '' pre"
  shows "opt \<in> set (detectUnsupportedFfmpegOptions (pre @ unknownMessage opt @ post))"
proof -
  have "opt \<in> set (scanAll matchUnknown (pre @ ''Unknown option '' @ [CHR 0x22] @ opt @ [CHR 0x22] @ post))"
    using matchUnknown_opens matchUnknown_message[OF assms(1), of post] assms(2)
    by (intro scanAll_finds[where m = matchUnknown and lit = "''Unknown option ''"
                              and body = "[CHR 0x22] @ opt @ [CHR 0x22] @ post" and cap = opt and rest = post])
       simp_all
  then show ?thesis using detects_plain[OF assms(1)] by (simp add: unknownMessage_def)
qed

lemma detect_nothing:
  assumes "\<not> containsCI err (''Unrecognized option '' @ [CHR 0x27])"
    and "\<not> containsCI err ''Option ''" and "\<not> containsCI err ''Unknown option ''"
  shows "detectUnsupportedFfmpegOptions err = []"
proof -
  have 1: "scanAll matchUnrecognized err = []"
  proof (rule scanAll_none, intro allI impI, rule ccontr)
    fix k assume "k \<le> length err" "matchUnrecognized (drop k err) \<noteq> None"
    then show False using matchUnrecognized_opens containsCI_drop assms(1) by blast
  qed
  have 2: "scanAll matchNotFound err = []"
  proof (rule scanAll_none, intro allI impI, rule ccontr)
    fix k assume "k \<le> length err" "matchNotFound (drop k err) \<noteq> None"
    then show False using matchNotFound_opens containsCI_drop[of k err "''Option ''"] assms(2) by blast
  qed
  have 3: "scanAll matchUnknown err = []"
  proof (rule scanAll_none, intro allI impI, rule ccontr)
    fix k assume "k \<le> length err" "matchUnknown (drop k err) \<noteq> None"
    then show False using matchUnknown_opens containsCI_drop[of k err "''Unknown option ''"] assms(3)
      by blast
  qed
  show ?thesis by (simp add: detectUnsupportedFfmpegOptions_def 1 2 3)
qed

text \<open>Conversely, whatever is detected is named in the text.\<close>

lemma startsWithCI_letters: "startsWithCI s p \<Longrightarrow> sameLetters (take (length p) s) p"
  by (induction s p rule: startsWithCI.induct) (simp_all add: sameLetters_def split: if_splits)

lemma scanAll_elem:
  assumes suffix: "\<And>t cp rest. m t = Some (cp, rest) \<Longrightarrow> \<exists>j. rest = drop j t"
  shows "cap \<in> set (scanAll m s) \<Longrightarrow> \<exists>k rest. m (drop k s) = Some (cap, rest)"
proof (induction "length s" arbitrary: s rule: less_induct)
  case less
  show ?case
  proof (cases s)
    case Nil
    then show ?thesis using less.prems by simp
  next
    case (Cons c cs)
    show ?thesis
    proof (cases "m (c # cs)")
      case None
      then have "cap \<in> set (scanAll m cs)" using less.prems Cons by simp
      then obtain k rest where "m (drop k cs) = Some (cap, rest)"
        using less.hyps[of cs] Cons by auto
      then have "m (drop (Suc k) s) = Some (cap, rest)" using Cons by simp
      then show ?thesis by blast
    next
      case (Some a)
      obtain cp rest where a: "a = (cp, rest)" by (cases a)
      show ?thesis
      proof (cases "cap = cp")
        case True
        have "m (drop 0 s) = Some (cap, rest)" using Some a True Cons by simp
        then show ?thesis by blast
      next
        case False
        show ?thesis
        proof (cases "length rest \<le> length cs")
          case le: True
          then have "cap \<in> set (scanAll m rest)" using less.prems Some a False Cons by simp
          moreover have "length rest < length s" using le Cons by simp
          ultimately obtain k r where k: "m (drop k rest) = Some (cap, r)"
            using less.hyps[of rest] by blast
          obtain j where "rest = drop j s" using suffix[of "c # cs" cp rest] Some a Cons by blast
          then have "m (drop (k + j) s) = Some (cap, r)" using k by simp
          then show ?thesis by blast
        next
          case gt: False
          then have "cap \<in> set (scanAll m cs)" using less.prems Some a False Cons by simp
          then obtain k r where "m (drop k cs) = Some (cap, r)"
            using less.hyps[of cs] Cons by auto
          then have "m (drop (Suc k) s) = Some (cap, r)" using Cons by simp
          then show ?thesis by blast
        qed
      qed
    qed
  qed
qed

lemma tl_drop_Suc: "tl (drop n xs) = drop (Suc n) xs"
  by (simp add: drop_Suc tl_drop)

lemma dropWhile_drop: "dropWhile P xs = drop (length (takeWhile P xs)) xs"
  by (induction xs) simp_all

lemma matchUnrecognized_shape:
  assumes "matchUnrecognized t = Some (cap, rest)"
  shows "\<exists>lit post. t = lit @ cap @ post \<and> cap \<noteq> []
           \<and> sameLetters lit (''Unrecognized option '' @ [CHR 0x27]) \<and> CHR 0x27 \<notin> set cap
           \<and> startsWith post [CHR 0x27]"
    and "\<exists>j. rest = drop j t"
proof -
  define lit where "lit = ''Unrecognized option '' @ [CHR 0x27]"
  define r where "r = drop (length lit) t"
  define P where "P = (\<lambda>c :: char. c \<noteq> CHR 0x27)"
  have s: "startsWithCI t lit" using assms matchUnrecognized_opens unfolding lit_def by simp
  have m: "matchUnrecognized t
        = (if takeWhile P r \<noteq> [] \<and> dropWhile P r \<noteq> [] then Some (takeWhile P r, tl (dropWhile P r))
           else None)"
    using s unfolding matchUnrecognized_def Let_def lit_def r_def P_def by simp
  have c: "cap = takeWhile P r" "cap \<noteq> []" "dropWhile P r \<noteq> []" "rest = tl (dropWhile P r)"
    using assms unfolding m by (auto split: if_splits)
  have q: "CHR 0x27 \<notin> set cap" unfolding c(1) P_def using set_takeWhileD by fastforce
  have "\<not> P (hd (dropWhile P r))" using c(3) hd_dropWhile by blast
  then have h: "hd (dropWhile P r) = CHR 0x27" by (simp add: P_def)
  have sw: "startsWith (dropWhile P r) [CHR 0x27]"
    using c(3) h by (cases "dropWhile P r") simp_all
  have t: "t = take (length lit) t @ cap @ dropWhile P r"
    unfolding c(1) r_def by simp
  have l: "sameLetters (take (length lit) t) lit" by (rule startsWithCI_letters[OF s])
  show "\<exists>lit post. t = lit @ cap @ post \<and> cap \<noteq> []
           \<and> sameLetters lit (''Unrecognized option '' @ [CHR 0x27]) \<and> CHR 0x27 \<notin> set cap
           \<and> startsWith post [CHR 0x27]"
    using t l c(2) q sw unfolding lit_def by blast
  have "rest = drop (Suc (length cap + length lit)) t"
    unfolding c(4) c(1) r_def by (subst dropWhile_drop) (simp add: tl_drop drop_Suc)
  then show "\<exists>j. rest = drop j t" by blast
qed

lemma matchNotFound_shape:
  assumes "matchNotFound t = Some (cap, rest)"
  shows "\<exists>lit post. t = lit @ cap @ post \<and> cap \<noteq> []
           \<and> sameLetters lit ''Option '' \<and> CHR 0x20 \<notin> set cap \<and> startsWithCI post '' not found''"
    and "\<exists>j. rest = drop j t"
proof -
  define r where "r = drop 7 t"
  define P where "P = (\<lambda>c :: char. c \<noteq> CHR 0x20)"
  have s: "startsWithCI t ''Option ''" using assms matchNotFound_opens by simp
  have m: "matchNotFound t
        = (if takeWhile P r \<noteq> [] \<and> startsWithCI (dropWhile P r) '' not found''
           then Some (takeWhile P r, drop 10 (dropWhile P r)) else None)"
    using s unfolding matchNotFound_def Let_def r_def P_def by simp
  have c: "cap = takeWhile P r" "cap \<noteq> []" "startsWithCI (dropWhile P r) '' not found''"
    "rest = drop 10 (dropWhile P r)"
    using assms unfolding m by (auto split: if_splits)
  have q: "CHR 0x20 \<notin> set cap" unfolding c(1) P_def using set_takeWhileD by fastforce
  have "t = take 7 t @ cap @ dropWhile P r" unfolding c(1) r_def by simp
  moreover have len: "length ''Option '' = 7" by simp
  have "sameLetters (take 7 t) ''Option ''"
    by (rule startsWithCI_letters[OF s, unfolded len])
  ultimately show "\<exists>lit post. t = lit @ cap @ post \<and> cap \<noteq> []
           \<and> sameLetters lit ''Option '' \<and> CHR 0x20 \<notin> set cap \<and> startsWithCI post '' not found''"
    using c(2,3) q by blast
  have "rest = drop (10 + (length cap + 7)) t"
    unfolding c(4) c(1) r_def by (subst dropWhile_drop) simp
  then show "\<exists>j. rest = drop j t" by blast
qed

lemma matchUnknown_shape:
  assumes "matchUnknown t = Some (cap, rest)"
  shows "\<exists>lit post. t = lit @ cap @ post \<and> cap \<noteq> []
           \<and> (sameLetters lit ''Unknown option '' \<or> sameLetters lit (''Unknown option '' @ [CHR 0x22]))
           \<and> list_all (\<lambda>c. c \<noteq> CHR 0x22 \<and> \<not> isSpace c) cap"
    and "\<exists>j. rest = drop j t"
proof -
  define r where "r = drop 15 t"
  define r' where "r' = (if r \<noteq> [] \<and> hd r = CHR 0x22 then tl r else r)"
  define P where "P = (\<lambda>c :: char. c \<noteq> CHR 0x22 \<and> \<not> isSpace c)"
  define aft where "aft = dropWhile P r'"
  have s: "startsWithCI t ''Unknown option ''" using assms matchUnknown_opens by simp
  have m: "matchUnknown t
        = (if takeWhile P r' \<noteq> []
           then Some (takeWhile P r', if aft \<noteq> [] \<and> hd aft = CHR 0x22 then tl aft else aft)
           else None)"
    using s unfolding matchUnknown_def Let_def r_def r'_def P_def aft_def by simp
  have c: "cap = takeWhile P r'" "cap \<noteq> []"
    "rest = (if aft \<noteq> [] \<and> hd aft = CHR 0x22 then tl aft else aft)"
    using assms unfolding m by (auto split: if_splits)
  have q: "list_all (\<lambda>c. c \<noteq> CHR 0x22 \<and> \<not> isSpace c) cap"
    unfolding c(1) list_all_iff P_def using set_takeWhileD by fastforce
  have t: "t = take 15 t @ r" unfolding r_def by simp
  have len: "length ''Unknown option '' = 15" by simp
  have l: "sameLetters (take 15 t) ''Unknown option ''"
    by (rule startsWithCI_letters[OF s, unfolded len])
  have r'': "r' = cap @ aft" unfolding c(1) aft_def by simp
  show "\<exists>lit post. t = lit @ cap @ post \<and> cap \<noteq> []
           \<and> (sameLetters lit ''Unknown option '' \<or> sameLetters lit (''Unknown option '' @ [CHR 0x22]))
           \<and> list_all (\<lambda>c. c \<noteq> CHR 0x22 \<and> \<not> isSpace c) cap"
  proof (cases "r \<noteq> [] \<and> hd r = CHR 0x22")
    case True
    then have r: "r = CHR 0x22 # r'" unfolding r'_def by (cases r) simp_all
    have "t = (take 15 t @ [CHR 0x22]) @ cap @ aft"
      by (subst t, subst r, subst r'') simp
    moreover have "sameLetters (take 15 t @ [CHR 0x22]) (''Unknown option '' @ [CHR 0x22])"
      using l by (simp add: sameLetters_def)
    ultimately show ?thesis using c(2) q by blast
  next
    case False
    then have r: "r = r'" unfolding r'_def by auto
    have "t = take 15 t @ cap @ aft"
      by (subst t, subst r, subst r'') simp
    then show ?thesis using l c(2) q by blast
  qed
  have a: "\<exists>j. r' = drop j t"
  proof (cases "r \<noteq> [] \<and> hd r = CHR 0x22")
    case True
    then have "r' = tl (drop 15 t)" unfolding r'_def r_def by simp
    then have "r' = drop (Suc 15) t" by (simp only: tl_drop_Suc)
    then show ?thesis by blast
  next
    case False
    then have "r' = drop 15 t" unfolding r'_def r_def by auto
    then show ?thesis by blast
  qed
  then obtain j where j: "r' = drop j t" by blast
  have b: "aft = drop (length cap + j) t"
    unfolding aft_def c(1) by (subst dropWhile_drop) (simp add: j)
  show "\<exists>j. rest = drop j t"
  proof (cases "aft \<noteq> [] \<and> hd aft = CHR 0x22")
    case True
    then have "rest = tl aft" using c(3) by simp
    then have "rest = drop (Suc (length cap + j)) t" unfolding b by (simp only: tl_drop_Suc)
    then show ?thesis by blast
  next
    case False
    then have "rest = aft" using c(3) by auto
    then have "rest = drop (length cap + j) t" using b by simp
    then show ?thesis by blast
  qed
qed

lemma detect_named:
  assumes "opt \<in> set (detectUnsupportedFfmpegOptions err)"
  shows "namedIn err opt"
proof -
  obtain cap where cap: "opt = trim (dropWhile (\<lambda>c. c = CHR ''-'') cap)"
     "cap \<in> set (scanAll matchUnrecognized err) \<union> set (scanAll matchNotFound err)
               \<union> set (scanAll matchUnknown err)"
    using addOption_only[OF assms[unfolded detectUnsupportedFfmpegOptions_def]] by auto
  from cap(2) consider (a) "cap \<in> set (scanAll matchUnrecognized err)"
    | (b) "cap \<in> set (scanAll matchNotFound err)" | (c) "cap \<in> set (scanAll matchUnknown err)"
    by blast
  then show ?thesis
  proof cases
    case a
    have "\<exists>k rest. matchUnrecognized (drop k err) = Some (cap, rest)"
      by (rule scanAll_elem[where m = matchUnrecognized, OF matchUnrecognized_shape(2) a])
    then obtain k rest where "matchUnrecognized (drop k err) = Some (cap, rest)" by blast
    from matchUnrecognized_shape(1)[OF this]
    obtain lit post where d: "drop k err = lit @ cap @ post" "cap \<noteq> []"
      "sameLetters lit (''Unrecognized option '' @ [CHR 0x27])" "CHR 0x27 \<notin> set cap"
      "startsWith post [CHR 0x27]" by blast
    have "err = take k err @ lit @ cap @ post" using d(1) by (metis append_take_drop_id)
    then show ?thesis unfolding namedIn_def using cap(1) d(2-) by blast
  next
    case b
    have "\<exists>k rest. matchNotFound (drop k err) = Some (cap, rest)"
      by (rule scanAll_elem[where m = matchNotFound, OF matchNotFound_shape(2) b])
    then obtain k rest where "matchNotFound (drop k err) = Some (cap, rest)" by blast
    from matchNotFound_shape(1)[OF this]
    obtain lit post where d: "drop k err = lit @ cap @ post" "cap \<noteq> []"
      "sameLetters lit ''Option ''" "CHR 0x20 \<notin> set cap" "startsWithCI post '' not found''" by blast
    have "err = take k err @ lit @ cap @ post" using d(1) by (metis append_take_drop_id)
    then show ?thesis unfolding namedIn_def using cap(1) d(2-) by blast
  next
    case c
    have "\<exists>k rest. matchUnknown (drop k err) = Some (cap, rest)"
      by (rule scanAll_elem[where m = matchUnknown, OF matchUnknown_shape(2) c])
    then obtain k rest where "matchUnknown (drop k err) = Some (cap, rest)" by blast
    from matchUnknown_shape(1)[OF this]
    obtain lit post where d: "drop k err = lit @ cap @ post" "cap \<noteq> []"
      "sameLetters lit ''Unknown option '' \<or> sameLetters lit (''Unknown option '' @ [CHR 0x22])"
      "list_all (\<lambda>c. c \<noteq> CHR 0x22 \<and> \<not> isSpace c) cap" by blast
    have "err = take k err @ lit @ cap @ post" using d(1) by (metis append_take_drop_id)
    then show ?thesis unfolding namedIn_def using cap(1) d(2-) by blast
  qed
qed

lemma narrowOptions_fst:
  "fst (narrowOptions st u) =
     \<lparr>includeHeaders = (includeHeaders st \<and> ''headers'' \<notin> set u \<and> ''user_agent'' \<notin> set u),
      includeProtocolWhitelist = (includeProtocolWhitelist st \<and> ''protocol_whitelist'' \<notin> set u),
      includeAllowedExtensions = (includeAllowedExtensions st \<and> ''allowed_extensions'' \<notin> set u),
      includeAllowedSegmentExtensions =
        (includeAllowedSegmentExtensions st \<and> ''allowed_segment_extensions'' \<notin> set u)\<rparr>"
  unfolding narrowOptions_def Let_def fst_conv
  by (intro option_state.equality) (simp_all, blast+)

lemma narrowedState_flags:
  "includeHeaders (narrowedState st res)
     = (includeHeaders st \<and> \<not> namesOption res ''headers'' \<and> \<not> namesOption res ''user_agent'')
   \<and> includeProtocolWhitelist (narrowedState st res)
     = (includeProtocolWhitelist st \<and> \<not> namesOption res ''protocol_whitelist'')
   \<and> includeAllowedExtensions (narrowedState st res)
     = (includeAllowedExtensions st \<and> \<not> namesOption res ''allowed_extensions'')
   \<and> includeAllowedSegmentExtensions (narrowedState st res)
     = (includeAllowedSegmentExtensions st \<and> \<not> namesOption res ''allowed_segment_extensions'')"
  by (cases "unsupportedOptions res")
     (simp_all add: narrowedState_def narrowOptions_fst namesOption_def)

lemma retryNeeded_iff:
  "retryNeeded st res k =
     (\<not> ok res \<and> k < 3 \<and>
      ((includeHeaders st \<and> (namesOption res ''headers'' \<or> namesOption res ''user_agent''))
       \<or> (includeProtocolWhitelist st \<and> namesOption res ''protocol_whitelist'')
       \<or> (includeAllowedExtensions st \<and> namesOption res ''allowed_extensions'')
       \<or> (includeAllowedSegmentExtensions st \<and> namesOption res ''allowed_segment_extensions'')))"
  by (cases "unsupportedOptions res")
     (auto simp: retryNeeded_def narrowOptions_def namesOption_def Let_def)

lemma failed_run_names:
  "procEnd r = ExitCode c \<Longrightarrow> c \<noteq> 0 \<Longrightarrow>
     \<not> ok (ffmpegResultOf r)
     \<and> namesOption (ffmpegResultOf r) opt = (opt \<in> set (detectUnsupportedFfmpegOptions (stderrOutput r)))"
  by (simp add: ffmpegResultOf_def namesOption_def)

lemma buildArgs_explicit:
  "buildArgs job st =
     [''-hide_banner'', ''-loglevel'', ''error'', ''-progress'', ''pipe:1'', ''-nostats'']
     @ (if includeHeaders st then headerArgs job else [])
     @ (if isHls job \<and> includeProtocolWhitelist st
        then [''-protocol_whitelist'', ''file,http,https,tcp,tls,crypto,data''] else [])
     @ (if isHls job \<and> includeAllowedExtensions st then [''-allowed_extensions'', ''ALL''] else [])
     @ (if isHls job \<and> includeAllowedSegmentExtensions st
        then [''-allowed_segment_extensions'', ''ALL''] else [])
     @ [''-i'', inputUrl job, ''-c'', ''copy'', ''-movflags'', ''+faststart'', ''-y'', outputPath job]"
  by (simp add: buildArgs_def baseArgs_def protocolWhitelistArgs_def inputArgs_def)

lemma group_names_plain:
  "list_all plainOption [''headers'', ''user_agent'', ''protocol_whitelist'', ''allowed_extensions'',
                         ''allowed_segment_extensions'']"
  by (simp add: plainOption_def isSpace_def)

lemma whitelist_rejected_first:
  fixes spawn job
  defines "first \<equiv> [''-hide_banner'', ''-loglevel'', ''error'', ''-progress'', ''pipe:1'', ''-nostats'']
             @ headerArgs job
             @ [''-protocol_whitelist'', ''file,http,https,tcp,tls,crypto,data'',
                ''-allowed_extensions'', ''ALL'', ''-allowed_segment_extensions'', ''ALL'']
             @ [''-i'', inputUrl job, ''-c'', ''copy'', ''-movflags'', ''+faststart'', ''-y'',
                outputPath job]"
    and "second \<equiv> [''-hide_banner'', ''-loglevel'', ''error'', ''-progress'', ''pipe:1'', ''-nostats'']
             @ headerArgs job
             @ [''-allowed_extensions'', ''ALL'', ''-allowed_segment_extensions'', ''ALL'']
             @ [''-i'', inputUrl job, ''-c'', ''copy'', ''-movflags'', ''+faststart'', ''-y'',
                outputPath job]"
  assumes hls: "isHls job"
    and e: "procEnd (spawn 0 first) = ExitCode c" "c \<noteq> 0"
    and d: "stderrOutput (spawn 0 first) = unrecognizedMessage ''protocol_whitelist'' @ post"
    and o: "\<forall>g \<in> set [''headers'', ''user_agent'', ''allowed_extensions'', ''allowed_segment_extensions''].
              g \<notin> set (detectUnsupportedFfmpegOptions (stderrOutput (spawn 0 first)))"
  shows "2 \<le> length (ffmpegInvocations spawn job)
       \<and> invArgs (ffmpegInvocations spawn job ! 0) = first
       \<and> invArgs (ffmpegInvocations spawn job ! 1) = second
       \<and> invResult (ffmpegInvocations spawn job ! 1) = ffmpegResultOf (spawn 1 second)"
proof -
  let ?st = "initialOptions job"
  let ?r = "snd (runFfmpeg spawn job 0 ?st)"
  have b0: "buildArgs job ?st = first"
    using hls by (simp add: buildArgs_explicit initialOptions_def first_def)
  have r: "?r = ffmpegResultOf (spawn 0 first)" by (simp add: runFfmpeg_def Let_def b0)
  have ne: "noEarlier (''Unrecognized option '' @ [CHR 0x27]) []" by code_simp
  have pl: "plainOption ''protocol_whitelist''" using group_names_plain by simp
  have pw: "''protocol_whitelist'' \<in> set (detectUnsupportedFfmpegOptions (stderrOutput (spawn 0 first)))"
    unfolding d using detect_unrecognized[OF pl ne, of post] by simp
  have nm: "\<not> ok ?r" "namesOption ?r ''protocol_whitelist''"
    "\<not> namesOption ?r ''headers''" "\<not> namesOption ?r ''user_agent''"
    "\<not> namesOption ?r ''allowed_extensions''" "\<not> namesOption ?r ''allowed_segment_extensions''"
    using failed_run_names[OF e] pw o unfolding r by simp_all
  have rn: "retryNeeded ?st ?r 0"
    unfolding retryNeeded_iff using nm hls by (simp add: initialOptions_def)
  have ns: "narrowedState ?st ?r = ?st\<lparr>includeProtocolWhitelist := False\<rparr>"
    using narrowedState_flags[of ?st ?r] nm hls
    by (intro option_state.equality) (simp_all add: initialOptions_def)
  have ns': "narrowedState ?st (ffmpegResultOf (spawn 0 (buildArgs job ?st)))
              = ?st\<lparr>includeProtocolWhitelist := False\<rparr>"
    using ns by (simp add: runFfmpeg_def Let_def)
  have b1: "buildArgs job (?st\<lparr>includeProtocolWhitelist := False\<rparr>) = second"
    using hls by (simp add: buildArgs_explicit initialOptions_def second_def)
  have unf: "ffmpegInvocations spawn job =
         \<lparr>invState = ?st, invArgs = fst (runFfmpeg spawn job 0 ?st), invResult = ?r\<rparr>
         # \<lparr>invState = narrowedState ?st ?r,
             invArgs = fst (runFfmpeg spawn job 1 (narrowedState ?st ?r)),
             invResult = snd (runFfmpeg spawn job 1 (narrowedState ?st ?r))\<rparr>
         # narrowingLoop spawn job (narrowedState ?st ?r)
                (snd (runFfmpeg spawn job 1 (narrowedState ?st ?r))) 1"
    unfolding invocations_unfold using rn by (subst loop_unfold) simp
  have l: "2 \<le> length (ffmpegInvocations spawn job)" by (subst unf) simp
  have a0: "invArgs (ffmpegInvocations spawn job ! 0) = first"
    by (subst unf) (simp add: runFfmpeg_def Let_def b0)
  have a1: "invArgs (ffmpegInvocations spawn job ! 1) = second"
    by (subst unf) (simp add: runFfmpeg_def Let_def ns' b1)
  have r1: "invResult (ffmpegInvocations spawn job ! 1) = ffmpegResultOf (spawn 1 second)"
    by (subst unf) (simp add: runFfmpeg_def Let_def ns' b1)
  show ?thesis using l a0 a1 r1 by simp
qed

text \<open>
  Claim C3. In one attempt the driver invokes the transcoder at most four times: the
  first run and at most three narrowing retries. Every invocation is spawned with the
  fixed arguments, then the header block, the protocol whitelist pair, the
  \<open>-allowed_extensions\<close> pair and the \<open>-allowed_segment_extensions\<close> pair, each only if its
  group is still included (the last three for HLS only), then the input arguments; its
  result is what the process spawned with exactly these arguments left. Invocation
  \<open>i + 1\<close> happens exactly when invocation \<open>i\<close> failed, fewer than three retries were
  made, and its standard error names a group that is still included (\<open>headers\<close> or
  \<open>user_agent\<close> for the header block, \<open>protocol_whitelist\<close>, \<open>allowed_extensions\<close>,
  \<open>allowed_segment_extensions\<close>); it then runs with exactly the named groups removed.

  What the standard error names is read off its text: an option is detected only if
  the text holds one of the three wordings around it, and a plainly written option is
  detected from \<open>Unrecognized option 'opt'\<close>, \<open>Option opt not found\<close> and
  \<open>Unknown option "opt"\<close> wherever the opening words of that wording do not occur earlier.
  The five group names are plainly written.

  In particular, when the first run of an HLS job fails with a standard error that
  starts with \<open>Unrecognized option 'protocol_whitelist'\<close> and no other group is detected,
  there is a second run, and its arguments are the first run's without the
  protocol-whitelist pair.
\<close>

theorem narrowing_retries:
  "ffmpegInvocations spawn job \<noteq> []
   \<and> length (ffmpegInvocations spawn job) \<le> 4
   \<and> invState (hd (ffmpegInvocations spawn job))
       = \<lparr>includeHeaders = (headerArgs job \<noteq> []), includeProtocolWhitelist = isHls job,
          includeAllowedExtensions = isHls job, includeAllowedSegmentExtensions = isHls job\<rparr>
   \<and> (\<forall>i. i < length (ffmpegInvocations spawn job) \<longrightarrow>
          invArgs (ffmpegInvocations spawn job ! i)
            = [''-hide_banner'', ''-loglevel'', ''error'', ''-progress'', ''pipe:1'', ''-nostats'']
              @ (if includeHeaders (invState (ffmpegInvocations spawn job ! i))
                 then headerArgs job else [])
              @ (if isHls job \<and> includeProtocolWhitelist (invState (ffmpegInvocations spawn job ! i))
                 then [''-protocol_whitelist'', ''file,http,https,tcp,tls,crypto,data''] else [])
              @ (if isHls job \<and> includeAllowedExtensions (invState (ffmpegInvocations spawn job ! i))
                 then [''-allowed_extensions'', ''ALL''] else [])
              @ (if isHls job
                    \<and> includeAllowedSegmentExtensions (invState (ffmpegInvocations spawn job ! i))
                 then [''-allowed_segment_extensions'', ''ALL''] else [])
              @ [''-i'', inputUrl job, ''-c'', ''copy'', ''-movflags'', ''+faststart'', ''-y'',
                 outputPath job]
        \<and> invResult (ffmpegInvocations spawn job ! i)
            = ffmpegResultOf (spawn i (invArgs (ffmpegInvocations spawn job ! i))))
   \<and> (\<forall>i. Suc i < length (ffmpegInvocations spawn job) \<longrightarrow>
          retryNeeded (invState (ffmpegInvocations spawn job ! i))
                      (invResult (ffmpegInvocations spawn job ! i)) i
        \<and> invState (ffmpegInvocations spawn job ! Suc i)
            = narrowedState (invState (ffmpegInvocations spawn job ! i))
                            (invResult (ffmpegInvocations spawn job ! i)))
   \<and> (\<forall>i. i < length (ffmpegInvocations spawn job)
          \<and> retryNeeded (invState (ffmpegInvocations spawn job ! i))
                        (invResult (ffmpegInvocations spawn job ! i)) i
          \<longrightarrow> Suc i < length (ffmpegInvocations spawn job))
   \<and> (\<forall>st res k. retryNeeded st res k =
         (\<not> ok res \<and> k < 3 \<and>
          ((includeHeaders st \<and> (namesOption res ''headers'' \<or> namesOption res ''user_agent''))
           \<or> (includeProtocolWhitelist st \<and> namesOption res ''protocol_whitelist'')
           \<or> (includeAllowedExtensions st \<and> namesOption res ''allowed_extensions'')
           \<or> (includeAllowedSegmentExtensions st \<and> namesOption res ''allowed_segment_extensions''))))
   \<and> (\<forall>st res.
         includeHeaders (narrowedState st res)
           = (includeHeaders st \<and> \<not> namesOption res ''headers'' \<and> \<not> namesOption res ''user_agent'')
       \<and> includeProtocolWhitelist (narrowedState st res)
           = (includeProtocolWhitelist st \<and> \<not> namesOption res ''protocol_whitelist'')
       \<and> includeAllowedExtensions (narrowedState st res)
           = (includeAllowedExtensions st \<and> \<not> namesOption res ''allowed_extensions'')
       \<and> includeAllowedSegmentExtensions (narrowedState st res)
           = (includeAllowedSegmentExtensions st \<and> \<not> namesOption res ''allowed_segment_extensions''))
   \<and> (\<forall>r c opt. procEnd r = ExitCode c \<and> c \<noteq> 0 \<longrightarrow>
         \<not> ok (ffmpegResultOf r)
         \<and> namesOption (ffmpegResultOf r) opt
             = (opt \<in> set (detectUnsupportedFfmpegOptions (stderrOutput r))))
   \<and> (\<forall>err opt. opt \<in> set (detectUnsupportedFfmpegOptions err) \<longrightarrow> namedIn err opt)
   \<and> (\<forall>opt pre post. plainOption opt \<longrightarrow>
         (noEarlier (''Unrecognized option '' @ [CHR 0x27]) pre \<longrightarrow>
            opt \<in> set (detectUnsupportedFfmpegOptions (pre @ unrecognizedMessage opt @ post)))
       \<and> (noEarlier ''Option '' pre \<longrightarrow>
            opt \<in> set (detectUnsupportedFfmpegOptions (pre @ notFoundMessage opt @ post)))
       \<and> (noEarlier ''Unknown option '' pre \<longrightarrow>
            opt \<in> set (detectUnsupportedFfmpegOptions (pre @ unknownMessage opt @ post))))
   \<and> list_all plainOption [''headers'', ''user_agent'', ''protocol_whitelist'', ''allowed_extensions'',
                           ''allowed_segment_extensions'']
   \<and> (\<forall>c post.
         isHls job
         \<and> procEnd (spawn 0
              ([''-hide_banner'', ''-loglevel'', ''error'', ''-progress'', ''pipe:1'', ''-nostats'']
               @ headerArgs job
               @ [''-protocol_whitelist'', ''file,http,https,tcp,tls,crypto,data'',
                  ''-allowed_extensions'', ''ALL'', ''-allowed_segment_extensions'', ''ALL'']
               @ [''-i'', inputUrl job, ''-c'', ''copy'', ''-movflags'', ''+faststart'', ''-y'',
                  outputPath job])) = ExitCode c
         \<and> c \<noteq> 0
         \<and> stderrOutput (spawn 0
              ([''-hide_banner'', ''-loglevel'', ''error'', ''-progress'', ''pipe:1'', ''-nostats'']
               @ headerArgs job
               @ [''-protocol_whitelist'', ''file,http,https,tcp,tls,crypto,data'',
                  ''-allowed_extensions'', ''ALL'', ''-allowed_segment_extensions'', ''ALL'']
               @ [''-i'', inputUrl job, ''-c'', ''copy'', ''-movflags'', ''+faststart'', ''-y'',
                  outputPath job]))
             = unrecognizedMessage ''protocol_whitelist'' @ post
         \<and> (\<forall>g \<in> set [''headers'', ''user_agent'', ''allowed_extensions'',
                         ''allowed_segment_extensions''].
               g \<notin> set (detectUnsupportedFfmpegOptions
                           (unrecognizedMessage ''protocol_whitelist'' @ post)))
         \<longrightarrow> 2 \<le> length (ffmpegInvocations spawn job)
           \<and> invArgs (ffmpegInvocations spawn job ! 0)
               = [''-hide_banner'', ''-loglevel'', ''error'', ''-progress'', ''pipe:1'', ''-nostats'']
                 @ headerArgs job
                 @ [''-protocol_whitelist'', ''file,http,https,tcp,tls,crypto,data'',
                    ''-allowed_extensions'', ''ALL'', ''-allowed_segment_extensions'', ''ALL'']
                 @ [''-i'', inputUrl job, ''-c'', ''copy'', ''-movflags'', ''+faststart'', ''-y'',
                    outputPath job]
           \<and> invArgs (ffmpegInvocations spawn job ! 1)
               = [''-hide_banner'', ''-loglevel'', ''error'', ''-progress'', ''pipe:1'', ''-nostats'']
                 @ headerArgs job
                 @ [''-allowed_extensions'', ''ALL'', ''-allowed_segment_extensions'', ''ALL'']
                 @ [''-i'', inputUrl job, ''-c'', ''copy'', ''-movflags'', ''+faststart'', ''-y'',
                    outputPath job]
           \<and> invResult (ffmpegInvocations spawn job ! 1)
               = ffmpegResultOf (spawn 1
                  ([''-hide_banner'', ''-loglevel'', ''error'', ''-progress'', ''pipe:1'', ''-nostats'']
                   @ headerArgs job
                   @ [''-allowed_extensions'', ''ALL'', ''-allowed_segment_extensions'', ''ALL'']
                   @ [''-i'', inputUrl job, ''-c'', ''copy'', ''-movflags'', ''+faststart'', ''-y'',
                      outputPath job])))"
proof (intro conjI allI impI)
  show "ffmpegInvocations spawn job \<noteq> []" by (simp add: invocations_unfold)
  show "length (ffmpegInvocations spawn job) \<le> 4" by (rule invocations_length)
  show "invState (hd (ffmpegInvocations spawn job))
       = \<lparr>includeHeaders = (headerArgs job \<noteq> []), includeProtocolWhitelist = isHls job,
          includeAllowedExtensions = isHls job, includeAllowedSegmentExtensions = isHls job\<rparr>"
    by (simp add: invocations_unfold initialOptions_def)
next
  fix i assume a: "i < length (ffmpegInvocations spawn job)"
  note s = invocations_spawned[OF a, unfolded spawned_def]
  show "invArgs (ffmpegInvocations spawn job ! i)
            = [''-hide_banner'', ''-loglevel'', ''error'', ''-progress'', ''pipe:1'', ''-nostats'']
              @ (if includeHeaders (invState (ffmpegInvocations spawn job ! i))
                 then headerArgs job else [])
              @ (if isHls job \<and> includeProtocolWhitelist (invState (ffmpegInvocations spawn job ! i))
                 then [''-protocol_whitelist'', ''file,http,https,tcp,tls,crypto,data''] else [])
              @ (if isHls job \<and> includeAllowedExtensions (invState (ffmpegInvocations spawn job ! i))
                 then [''-allowed_extensions'', ''ALL''] else [])
              @ (if isHls job
                    \<and> includeAllowedSegmentExtensions (invState (ffmpegInvocations spawn job ! i))
                 then [''-allowed_segment_extensions'', ''ALL''] else [])
              @ [''-i'', inputUrl job, ''-c'', ''copy'', ''-movflags'', ''+faststart'', ''-y'',
                 outputPath job]"
    using s by (simp only: buildArgs_explicit)
  show "invResult (ffmpegInvocations spawn job ! i)
            = ffmpegResultOf (spawn i (invArgs (ffmpegInvocations spawn job ! i)))"
    using s by blast
next
  fix i assume a: "Suc i < length (ffmpegInvocations spawn job)"
  note s = invocations_steps[OF a]
  show "retryNeeded (invState (ffmpegInvocations spawn job ! i))
                      (invResult (ffmpegInvocations spawn job ! i)) i"
    using s by blast
  show "invState (ffmpegInvocations spawn job ! Suc i)
            = narrowedState (invState (ffmpegInvocations spawn job ! i))
                            (invResult (ffmpegInvocations spawn job ! i))"
    using s by blast
next
  fix i assume "i < length (ffmpegInvocations spawn job)
          \<and> retryNeeded (invState (ffmpegInvocations spawn job ! i))
                        (invResult (ffmpegInvocations spawn job ! i)) i"
  then show "Suc i < length (ffmpegInvocations spawn job)"
    using invocations_continue by blast
next
  fix st res k
  show "retryNeeded st res k =
         (\<not> ok res \<and> k < 3 \<and>
          ((includeHeaders st \<and> (namesOption res ''headers'' \<or> namesOption res ''user_agent''))
           \<or> (includeProtocolWhitelist st \<and> namesOption res ''protocol_whitelist'')
           \<or> (includeAllowedExtensions st \<and> namesOption res ''allowed_extensions'')
           \<or> (includeAllowedSegmentExtensions st \<and> namesOption res ''allowed_segment_extensions'')))"
    by (rule retryNeeded_iff)
next
  fix st res
  note f = narrowedState_flags[of st res]
  show "includeHeaders (narrowedState st res)
           = (includeHeaders st \<and> \<not> namesOption res ''headers'' \<and> \<not> namesOption res ''user_agent'')"
    using f by blast
  show "includeProtocolWhitelist (narrowedState st res)
           = (includeProtocolWhitelist st \<and> \<not> namesOption res ''protocol_whitelist'')"
    using f by blast
  show "includeAllowedExtensions (narrowedState st res)
           = (includeAllowedExtensions st \<and> \<not> namesOption res ''allowed_extensions'')"
    using f by blast
  show "includeAllowedSegmentExtensions (narrowedState st res)
           = (includeAllowedSegmentExtensions st \<and> \<not> namesOption res ''allowed_segment_extensions'')"
    using f by blast
next
  fix r :: proc_run and c opt assume a: "procEnd r = ExitCode c \<and> c \<noteq> 0"
  then have pe: "procEnd r = ExitCode c" and cz: "c \<noteq> 0" by blast+
  note f = failed_run_names[OF pe cz, of opt]
  show "\<not> ok (ffmpegResultOf r)" using f by blast
  show "namesOption (ffmpegResultOf r) opt
             = (opt \<in> set (detectUnsupportedFfmpegOptions (stderrOutput r)))"
    using f by blast
next
  fix err opt assume "opt \<in> set (detectUnsupportedFfmpegOptions err)"
  then show "namedIn err opt" by (rule detect_named)
next
  fix opt pre post assume p: "plainOption opt"
  assume "noEarlier (''Unrecognized option '' @ [CHR 0x27]) pre"
  then show "opt \<in> set (detectUnsupportedFfmpegOptions (pre @ unrecognizedMessage opt @ post))"
    by (rule detect_unrecognized[OF p])
next
  fix opt pre post assume p: "plainOption opt"
  assume "noEarlier ''Option '' pre"
  then show "opt \<in> set (detectUnsupportedFfmpegOptions (pre @ notFoundMessage opt @ post))"
    by (rule detect_notFound[OF p])
next
  fix opt pre post assume p: "plainOption opt"
  assume "noEarlier ''Unknown option '' pre"
  then show "opt \<in> set (detectUnsupportedFfmpegOptions (pre @ unknownMessage opt @ post))"
    by (rule detect_unknown[OF p])
next
  show "list_all plainOption [''headers'', ''user_agent'', ''protocol_whitelist'', ''allowed_extensions'',
                           ''allowed_segment_extensions'']"
    by (rule group_names_plain)
next
  fix c post
  let ?first = "[''-hide_banner'', ''-loglevel'', ''error'', ''-progress'', ''pipe:1'', ''-nostats'']
               @ headerArgs job
               @ [''-protocol_whitelist'', ''file,http,https,tcp,tls,crypto,data'',
                  ''-allowed_extensions'', ''ALL'', ''-allowed_segment_extensions'', ''ALL'']
               @ [''-i'', inputUrl job, ''-c'', ''copy'', ''-movflags'', ''+faststart'', ''-y'',
                  outputPath job]"
  assume a: "isHls job
         \<and> procEnd (spawn 0 ?first) = ExitCode c
         \<and> c \<noteq> 0
         \<and> stderrOutput (spawn 0 ?first) = unrecognizedMessage ''protocol_whitelist'' @ post
         \<and> (\<forall>g \<in> set [''headers'', ''user_agent'', ''allowed_extensions'',
                         ''allowed_segment_extensions''].
               g \<notin> set (detectUnsupportedFfmpegOptions
                           (unrecognizedMessage ''protocol_whitelist'' @ post)))"
  then have h1: "isHls job" and h2: "procEnd (spawn 0 ?first) = ExitCode c" and h3: "c \<noteq> 0"
    and h4: "stderrOutput (spawn 0 ?first) = unrecognizedMessage ''protocol_whitelist'' @ post"
    and h5: "\<forall>g \<in> set [''headers'', ''user_agent'', ''allowed_extensions'',
                         ''allowed_segment_extensions''].
               g \<notin> set (detectUnsupportedFfmpegOptions (stderrOutput (spawn 0 ?first)))"
    by simp_all
  note w = whitelist_rejected_first[where job = job and spawn = spawn and c = c and post = post,
              OF h1 h2 h3 h4 h5]
  show "2 \<le> length (ffmpegInvocations spawn job)" using w by blast
  show "invArgs (ffmpegInvocations spawn job ! 0) = ?first" using w by blast
  show "invArgs (ffmpegInvocations spawn job ! 1)
               = [''-hide_banner'', ''-loglevel'', ''error'', ''-progress'', ''pipe:1'', ''-nostats'']
                 @ headerArgs job
                 @ [''-allowed_extensions'', ''ALL'', ''-allowed_segment_extensions'', ''ALL'']
                 @ [''-i'', inputUrl job, ''-c'', ''copy'', ''-movflags'', ''+faststart'', ''-y'',
                    outputPath job]" using w by blast
  show "invResult (ffmpegInvocations spawn job ! 1)
               = ffmpegResultOf (spawn 1
                  ([''-hide_banner'', ''-loglevel'', ''error'', ''-progress'', ''pipe:1'', ''-nostats'']
                   @ headerArgs job
                   @ [''-allowed_extensions'', ''ALL'', ''-allowed_segment_extensions'', ''ALL'']
                   @ [''-i'', inputUrl job, ''-c'', ''copy'', ''-movflags'', ''+faststart'', ''-y'',
                      outputPath job]))" using w by blast
qed

theorem narrowing_retries_witness:
  "isHls hlsJob
   \<and> procEnd (pickySpawn 0 (invArgs (ffmpegInvocations pickySpawn hlsJob ! 0))) = ExitCode 1
   \<and> stderrOutput (pickySpawn 0 (invArgs (ffmpegInvocations pickySpawn hlsJob ! 0)))
       = unrecognizedMessage ''protocol_whitelist''
         @ ''.'' @ [CHR 0x0A] @ ''Error splitting the argument list: Option not found'' @ [CHR 0x0A]
   \<and> detectUnsupportedFfmpegOptions whitelistComplaint = [''protocol_whitelist'']
   \<and> namedIn whitelistComplaint ''protocol_whitelist''
   \<and> length (ffmpegInvocations pickySpawn hlsJob) = 2
   \<and> invArgs (ffmpegInvocations pickySpawn hlsJob ! 0)
       = [''-hide_banner'', ''-loglevel'', ''error'', ''-progress'', ''pipe:1'', ''-nostats'',
          ''-headers'', ''User-Agent: x'',
          ''-protocol_whitelist'', ''file,http,https,tcp,tls,crypto,data'',
          ''-allowed_extensions'', ''ALL'', ''-allowed_segment_extensions'', ''ALL'',
          ''-i'', ''/tmp/playlist.m3u8'', ''-c'', ''copy'', ''-movflags'', ''+faststart'', ''-y'',
          ''/tmp/video.mp4'']
   \<and> invArgs (ffmpegInvocations pickySpawn hlsJob ! 1)
       = [''-hide_banner'', ''-loglevel'', ''error'', ''-progress'', ''pipe:1'', ''-nostats'',
          ''-headers'', ''User-Agent: x'',
          ''-allowed_extensions'', ''ALL'', ''-allowed_segment_extensions'', ''ALL'',
          ''-i'', ''/tmp/playlist.m3u8'', ''-c'', ''copy'', ''-movflags'', ''+faststart'', ''-y'',
          ''/tmp/video.mp4'']
   \<and> ok (invResult (ffmpegInvocations pickySpawn hlsJob ! 1))"
proof -
  let ?post = "''.'' @ [CHR 0x0A] @ ''Error splitting the argument list: Option not found'' @ [CHR 0x0A]"
  let ?first = "[''-hide_banner'', ''-loglevel'', ''error'', ''-progress'', ''pipe:1'', ''-nostats'']
               @ headerArgs hlsJob
               @ [''-protocol_whitelist'', ''file,http,https,tcp,tls,crypto,data'',
                  ''-allowed_extensions'', ''ALL'', ''-allowed_segment_extensions'', ''ALL'']
               @ [''-i'', inputUrl hlsJob, ''-c'', ''copy'', ''-movflags'', ''+faststart'', ''-y'',
                  outputPath hlsJob]"
  let ?second = "[''-hide_banner'', ''-loglevel'', ''error'', ''-progress'', ''pipe:1'', ''-nostats'']
                 @ headerArgs hlsJob
                 @ [''-allowed_extensions'', ''ALL'', ''-allowed_segment_extensions'', ''ALL'']
                 @ [''-i'', inputUrl hlsJob, ''-c'', ''copy'', ''-movflags'', ''+faststart'', ''-y'',
                    outputPath hlsJob]"
  note t = narrowing_retries[of pickySpawn hlsJob]
  have h1: "isHls hlsJob" by (simp add: hlsJob_def)
  have w: "whitelistComplaint = unrecognizedMessage ''protocol_whitelist'' @ ?post"
    by (simp add: whitelistComplaint_def unrecognizedMessage_def)
  have h2: "procEnd (pickySpawn 0 ?first) = ExitCode 1" by (simp add: pickySpawn_def)
  have h4: "stderrOutput (pickySpawn 0 ?first) = unrecognizedMessage ''protocol_whitelist'' @ ?post"
    by (simp add: pickySpawn_def w)
  have d: "detectUnsupportedFfmpegOptions whitelistComplaint = [''protocol_whitelist'']"
    by code_simp
  have h5: "\<forall>g \<in> set [''headers'', ''user_agent'', ''allowed_extensions'',
                         ''allowed_segment_extensions''].
               g \<notin> set (detectUnsupportedFfmpegOptions
                           (unrecognizedMessage ''protocol_whitelist'' @ ?post))"
    unfolding w[symmetric] d by simp
  have c: "2 \<le> length (ffmpegInvocations pickySpawn hlsJob)
           \<and> invArgs (ffmpegInvocations pickySpawn hlsJob ! 0) = ?first
           \<and> invArgs (ffmpegInvocations pickySpawn hlsJob ! 1) = ?second
           \<and> invResult (ffmpegInvocations pickySpawn hlsJob ! 1)
               = ffmpegResultOf (pickySpawn 1 ?second)"
    using t h1 h2 h4 h5 by blast
  have n: "namedIn whitelistComplaint ''protocol_whitelist''"
    using t d by simp
  have a0: "invArgs (ffmpegInvocations pickySpawn hlsJob ! 0)
       = [''-hide_banner'', ''-loglevel'', ''error'', ''-progress'', ''pipe:1'', ''-nostats'',
          ''-headers'', ''User-Agent: x'',
          ''-protocol_whitelist'', ''file,http,https,tcp,tls,crypto,data'',
          ''-allowed_extensions'', ''ALL'', ''-allowed_segment_extensions'', ''ALL'',
          ''-i'', ''/tmp/playlist.m3u8'', ''-c'', ''copy'', ''-movflags'', ''+faststart'', ''-y'',
          ''/tmp/video.mp4'']"
    using c by (simp add: hlsJob_def)
  have a1: "invArgs (ffmpegInvocations pickySpawn hlsJob ! 1)
       = [''-hide_banner'', ''-loglevel'', ''error'', ''-progress'', ''pipe:1'', ''-nostats'',
          ''-headers'', ''User-Agent: x'',
          ''-allowed_extensions'', ''ALL'', ''-allowed_segment_extensions'', ''ALL'',
          ''-i'', ''/tmp/playlist.m3u8'', ''-c'', ''copy'', ''-movflags'', ''+faststart'', ''-y'',
          ''/tmp/video.mp4'']"
    using c by (simp add: hlsJob_def)
  have r1: "ok (invResult (ffmpegInvocations pickySpawn hlsJob ! 1))"
    using c by (simp add: pickySpawn_def ffmpegResultOf_def hlsJob_def)
  have l: "length (ffmpegInvocations pickySpawn hlsJob) = 2" by code_simp
  have p0: "procEnd (pickySpawn 0 (invArgs (ffmpegInvocations pickySpawn hlsJob ! 0))) = ExitCode 1"
    using c h2 by simp
  have s0: "stderrOutput (pickySpawn 0 (invArgs (ffmpegInvocations pickySpawn hlsJob ! 0)))
       = unrecognizedMessage ''protocol_whitelist'' @ ?post"
    using c h4 by simp
  show ?thesis using h1 p0 s0 d n l a0 a1 r1 by simp
qed

subsection \<open>Segment fetcher pool: when it declines\<close>

lemma key_not_other:
  "startsWith l ''#EXT-X-KEY'' \<Longrightarrow>
     \<not> startsWith l ''#EXT-X-BYTERANGE'' \<and> \<not> startsWith l ''#EXT-X-PART''
     \<and> \<not> startsWith l ''#EXT-X-PRELOAD-HINT'' \<and> l \<noteq> []"
  by (auto simp: startsWith_iff)

lemma part_not_byterange:
  "startsWith l ''#EXT-X-PART'' \<or> startsWith l ''#EXT-X-PRELOAD-HINT'' \<Longrightarrow>
     \<not> startsWith l ''#EXT-X-BYTERANGE'' \<and> l \<noteq> []"
  by (auto simp: startsWith_iff)

lemma keyLineStep_flags:
  "keyLineStep api b i l st = Some st' \<Longrightarrow>
     hasByterange st' = hasByterange st \<and> hasPartial st' = hasPartial st \<and> segments st' = segments st"
  by (auto simp: keyLineStep_def Let_def split: option.splits if_splits)

lemma mapLineStep_flags:
  "hasByterange (mapLineStep api b i l st) = hasByterange st
   \<and> hasPartial (mapLineStep api b i l st) = hasPartial st
   \<and> segments (mapLineStep api b i l st) = segments st"
  by (auto simp: mapLineStep_def Let_def split: option.splits if_splits)

lemma parseLine_byterange:
  "parseLine api b i l st = Some st' \<Longrightarrow>
     hasByterange st' = (hasByterange st \<or> startsWith (trim l) ''#EXT-X-BYTERANGE'')"
  using keyLineStep_flags[of api b i "trim l" st st'] mapLineStep_flags[of api b i "trim l" st]
  by (auto simp: parseLine_def Let_def segmentLineStep_def split: if_splits)

lemma parseLine_partial:
  "parseLine api b i l st = Some st' \<Longrightarrow>
     hasPartial st' = (hasPartial st \<or> startsWith (trim l) ''#EXT-X-PART''
                        \<or> startsWith (trim l) ''#EXT-X-PRELOAD-HINT'')"
  using keyLineStep_flags[of api b i "trim l" st st'] mapLineStep_flags[of api b i "trim l" st]
    part_not_byterange[of "trim l"]
  by (auto simp: parseLine_def Let_def segmentLineStep_def split: if_splits)

lemma parseLine_segments:
  "parseLine api b i l st = Some st' \<Longrightarrow>
     length (segments st') = length (segments st) + (if isSegmentLine l then 1 else 0)"
  using keyLineStep_flags[of api b i "trim l" st st'] mapLineStep_flags[of api b i "trim l" st]
    tag_prefix_hash[of "trim l"]
  by (auto simp: parseLine_def Let_def segmentLineStep_def isSegmentLine_def split: if_splits)

lemma toLowerCase_Nil_iff: "toLowerCase k = [] \<longleftrightarrow> k = []"
  by (simp add: toLowerCase_def)

lemma keyLineStep_foreign:
  assumes "parseAttributeList l ''KEYFORMAT'' = Some k" "k \<noteq> []" "toLowerCase k \<noteq> ''identity''"
  shows "keyLineStep api b i l st = None"
  unfolding keyLineStep_def Let_def using assms by (simp add: toLowerCase_Nil_iff)

lemma parseLine_foreign:
  assumes "foreignKeyLine l"
  shows "parseLine api b i l st = None"
proof -
  obtain k where k: "parseAttributeList (trim l) ''KEYFORMAT'' = Some k" "k \<noteq> []"
      "toLowerCase k \<noteq> ''identity''" and sw: "startsWith (trim l) ''#EXT-X-KEY''"
    using assms by (auto simp: foreignKeyLine_def split: option.splits)
  note n = key_not_other[OF sw]
  show ?thesis
    unfolding parseLine_def Let_def using n sw keyLineStep_foreign[OF k] by simp
qed

lemma parseLines_byterange:
  "parseLines api b i ls st = Some st' \<Longrightarrow>
     hasByterange st' = (hasByterange st \<or> list_ex (\<lambda>l. startsWith (trim l) ''#EXT-X-BYTERANGE'') ls)"
proof (induction ls arbitrary: i st)
  case Nil
  then show ?case by simp
next
  case (Cons l ls)
  then obtain st1 where s1: "parseLine api b i l st = Some st1"
    and r: "parseLines api b (Suc i) ls st1 = Some st'"
    by (auto split: option.splits)
  show ?case using Cons.IH[OF r] parseLine_byterange[OF s1] by auto
qed

lemma parseLines_partial:
  "parseLines api b i ls st = Some st' \<Longrightarrow>
     hasPartial st' = (hasPartial st \<or> list_ex (\<lambda>l. startsWith (trim l) ''#EXT-X-PART'') ls
                       \<or> list_ex (\<lambda>l. startsWith (trim l) ''#EXT-X-PRELOAD-HINT'') ls)"
proof (induction ls arbitrary: i st)
  case Nil
  then show ?case by simp
next
  case (Cons l ls)
  then obtain st1 where s1: "parseLine api b i l st = Some st1"
    and r: "parseLines api b (Suc i) ls st1 = Some st'"
    by (auto split: option.splits)
  show ?case using Cons.IH[OF r] parseLine_partial[OF s1] by auto
qed

lemma parseLines_segments:
  "parseLines api b i ls st = Some st' \<Longrightarrow>
     length (segments st') = length (segments st) + length (filter isSegmentLine ls)"
proof (induction ls arbitrary: i st)
  case Nil
  then show ?case by simp
next
  case (Cons l ls)
  then obtain st1 where s1: "parseLine api b i l st = Some st1"
    and r: "parseLines api b (Suc i) ls st1 = Some st'"
    by (auto split: option.splits)
  show ?case using Cons.IH[OF r] parseLine_segments[OF s1] by auto
qed

lemma parseLines_foreign:
  "list_ex foreignKeyLine ls \<Longrightarrow> parseLines api b i ls st = None"
proof (induction ls arbitrary: i st)
  case Nil
  then show ?case by simp
next
  case (Cons l ls)
  show ?case
  proof (cases "foreignKeyLine l")
    case True
    then show ?thesis by (simp add: parseLine_foreign)
  next
    case False
    then have "list_ex foreignKeyLine ls" using Cons.prems by simp
    then show ?thesis using Cons.IH by (simp split: option.splits)
  qed
qed

lemma planDownload_declines:
  assumes "\<not> isVodPlaylist content
     \<or> length (filter isSegmentLine (splitLines content)) < 6
     \<or> hasTag content ''#EXT-X-BYTERANGE'' \<or> hasTag content ''#EXT-X-PART''
     \<or> hasTag content ''#EXT-X-PRELOAD-HINT''
     \<or> list_ex foreignKeyLine (splitLines content)"
  shows "planDownload api content baseUrl = None"
proof (cases "parseLines api baseUrl 0 (splitLines content) emptyParse")
  case None
  then show ?thesis by (simp add: planDownload_def)
next
  case (Some st)
  have nf: "\<not> list_ex foreignKeyLine (splitLines content)"
    using Some parseLines_foreign[of "splitLines content" api baseUrl 0 emptyParse] by auto
  have b: "hasByterange st = hasTag content ''#EXT-X-BYTERANGE''"
    using parseLines_byterange[OF Some] by (simp add: emptyParse_def hasTag_def)
  have p: "hasPartial st = (hasTag content ''#EXT-X-PART'' \<or> hasTag content ''#EXT-X-PRELOAD-HINT'')"
    using parseLines_partial[OF Some] by (simp add: emptyParse_def hasTag_def)
  have s: "length (segments st) = length (filter isSegmentLine (splitLines content))"
    using parseLines_segments[OF Some] by (simp add: emptyParse_def)
  show ?thesis using assms nf b p s Some
    by (auto simp: planDownload_def DEFAULT_SEGMENT_MIN_COUNT_def)
qed

text \<open>
  Claim C5. The pool declines, before it creates a directory or fetches anything, when
  the playlist has no end-of-list marker, when fewer than six of its lines are segment
  lines, when a line is a \<open>#EXT-X-BYTERANGE\<close>, \<open>#EXT-X-PART\<close> or \<open>#EXT-X-PRELOAD-HINT\<close> tag
  (however many segments there are), or when a \<open>#EXT-X-KEY\<close> line carries a \<open>KEYFORMAT\<close>
  that is not empty and not \<open>identity\<close>. Declining is returning \<open>null\<close>.
\<close>

theorem pool_declines:
  "(\<not> isVodPlaylist content
     \<or> length (filter isSegmentLine (splitLines content)) < 6
     \<or> hasTag content ''#EXT-X-BYTERANGE'' \<or> hasTag content ''#EXT-X-PART''
     \<or> hasTag content ''#EXT-X-PRELOAD-HINT''
     \<or> list_ex foreignKeyLine (splitLines content))
   \<longrightarrow> planDownload api content baseUrl = None
     \<and> downloadHlsSegmentsParallel api env net diskFails sched abortedAt content baseUrl tempDir
         = Declined"
proof
  assume a: "\<not> isVodPlaylist content
     \<or> length (filter isSegmentLine (splitLines content)) < 6
     \<or> hasTag content ''#EXT-X-BYTERANGE'' \<or> hasTag content ''#EXT-X-PART''
     \<or> hasTag content ''#EXT-X-PRELOAD-HINT''
     \<or> list_ex foreignKeyLine (splitLines content)"
  have p: "planDownload api content baseUrl = None" by (rule planDownload_declines[OF a])
  then show "planDownload api content baseUrl = None
     \<and> downloadHlsSegmentsParallel api env net diskFails sched abortedAt content baseUrl tempDir
         = Declined"
    by (simp add: downloadHlsSegmentsParallel_def)
qed

theorem pool_declines_witness:
  "hasTag byterangeSix ''#EXT-X-BYTERANGE''
   \<and> length (filter isSegmentLine (splitLines byterangeSix)) = 6
   \<and> downloadHlsSegmentsParallel exampleApi defaultEnv alwaysSaved (\<lambda>p. False) firstInFlight
        (\<lambda>k. False) byterangeSix ''https://cdn.example/v/index.m3u8'' ''/tmp/job'' = Declined
   \<and> \<not> isVodPlaylist liveSix
   \<and> planDownload exampleApi liveSix ''https://cdn.example/v/index.m3u8'' = None
   \<and> list_ex foreignKeyLine (splitLines drmSix)
   \<and> planDownload exampleApi drmSix ''https://cdn.example/v/index.m3u8'' = None
   \<and> length (filter isSegmentLine (splitLines vodFive)) = 5
   \<and> planDownload exampleApi vodFive ''https://cdn.example/v/index.m3u8'' = None"
proof -
  have b: "hasTag byterangeSix ''#EXT-X-BYTERANGE''" by code_simp
  have n: "length (filter isSegmentLine (splitLines byterangeSix)) = 6" by code_simp
  have l: "\<not> isVodPlaylist liveSix" by code_simp
  have d: "list_ex foreignKeyLine (splitLines drmSix)" by code_simp
  have f: "length (filter isSegmentLine (splitLines vodFive)) = 5" by code_simp
  have 1: "downloadHlsSegmentsParallel exampleApi defaultEnv alwaysSaved (\<lambda>p. False) firstInFlight
        (\<lambda>k. False) byterangeSix ''https://cdn.example/v/index.m3u8'' ''/tmp/job'' = Declined"
    using pool_declines[of byterangeSix] b by blast
  have 2: "planDownload exampleApi liveSix ''https://cdn.example/v/index.m3u8'' = None"
    using pool_declines[of liveSix] l by blast
  have 3: "planDownload exampleApi drmSix ''https://cdn.example/v/index.m3u8'' = None"
    using pool_declines[of drmSix] d by blast
  have 4: "planDownload exampleApi vodFive ''https://cdn.example/v/index.m3u8'' = None"
    using pool_declines[of vodFive] f by simp
  show ?thesis using b n l d f 1 2 3 4 by blast
qed

subsection \<open>Rounding to doubles\<close>

lemma bitLength_pos: "0 < n \<Longrightarrow> 0 < bitLength n"
  by (subst bitLength.simps) simp

lemma bitLength_bounds: "0 < n \<Longrightarrow> 2 ^ (bitLength n - 1) \<le> n \<and> n < 2 ^ bitLength n"
proof (induction n rule: bitLength.induct)
  case (1 n)
  have b: "bitLength n = Suc (bitLength (n div 2))" using "1.prems" by (subst bitLength.simps) simp
  show ?case
  proof (cases "n div 2 = 0")
    case True
    then have "n = 1" using "1.prems" by (metis One_nat_def div_less_iff_less_mult less_2_cases_iff
          mult_2_right nat_neq_iff not_less_eq zero_less_numeral add_cancel_right_left
          div_eq_0_iff less_one numeral_2_eq_2 zero_neq_numeral)
    moreover have "bitLength (0::nat) = 0" by (subst bitLength.simps) simp
    ultimately show ?thesis using b True by simp
  next
    case False
    then have m: "0 < n div 2" by simp
    have ih: "2 ^ (bitLength (n div 2) - 1) \<le> n div 2" "n div 2 < 2 ^ bitLength (n div 2)"
      using "1.IH" "1.prems" m by simp_all
    have pos: "0 < bitLength (n div 2)" by (rule bitLength_pos[OF m])
    then obtain k where k: "bitLength (n div 2) = Suc k" by (cases "bitLength (n div 2)") auto
    have "2 * (n div 2) \<le> n" by simp
    then have lo: "2 ^ Suc k \<le> n" using ih(1) k by simp
    have "n < 2 * (n div 2) + 2" by (simp add: mult.commute)
    moreover have "2 * (n div 2) + 2 \<le> 2 * 2 ^ Suc k" using ih(2) k by simp
    ultimately have hi: "n < 2 ^ Suc (Suc k)" by simp
    show ?thesis using lo hi b k by simp
  qed
qed

lemma pow2_pos: "0 < pow2 e"
  by (simp add: pow2_def zero_less_power_int)

lemma pow2_Suc: "pow2 (e + 1) = 2 * pow2 e"
  by (simp add: pow2_def power_int_add)

lemma pow2_pred: "pow2 e = 2 * pow2 (e - 1)"
  using pow2_Suc[of "e - 1"] by simp

lemma pow2_add: "pow2 (a + b) = pow2 a * pow2 b"
  by (simp add: pow2_def power_int_add)

lemma pow2_nat: "pow2 (int n) = 2 ^ n"
  by (simp add: pow2_def)

lemma pow2_diff_nat: "pow2 (int a - int b) = 2 ^ a / 2 ^ b"
  by (simp add: pow2_def power_int_diff)

lemma pow2_mono: "a \<le> b \<Longrightarrow> pow2 a \<le> pow2 b"
  by (simp add: pow2_def power_int_increasing)

lemma pow2_strict_mono: "a < b \<Longrightarrow> pow2 a < pow2 b"
  by (simp add: pow2_def power_int_strict_increasing)

lemma pow2_less_cancel: "pow2 a < pow2 b \<Longrightarrow> a < b"
  using pow2_mono[of b a] by (cases "a < b") auto

lemma exponentOf_bounds:
  assumes "0 < x"
  shows "pow2 (exponentOf x) \<le> x \<and> x < pow2 (exponentOf x + 1)"
proof -
  define p where "p = fst (quotient_of x)"
  define q where "q = snd (quotient_of x)"
  define bp where "bp = bitLength (nat p)"
  define bq where "bq = bitLength (nat q)"
  define e where "e = int bp - int bq"
  have q: "0 < q" unfolding q_def by (rule quotient_of_denom_pos')
  have x: "x = of_int p / of_int q"
    unfolding p_def q_def by (rule quotient_of_div) simp
  have p: "0 < p"
  proof (rule ccontr)
    assume "\<not> 0 < p"
    then have "of_int p \<le> (0::rat)" by simp
    then have "x \<le> 0" unfolding x using q by (simp add: divide_le_0_iff)
    then show False using assms by simp
  qed
  have np: "0 < nat p" and nq: "0 < nat q" using p q by simp_all
  note Bp = bitLength_bounds[OF np, folded bp_def]
  note Bq = bitLength_bounds[OF nq, folded bq_def]
  obtain kp where kp: "bp = Suc kp" using bitLength_pos[OF np] unfolding bp_def
    by (cases "bitLength (nat p)") auto
  obtain kq where kq: "bq = Suc kq" using bitLength_pos[OF nq] unfolding bq_def
    by (cases "bitLength (nat q)") auto
  have "of_nat (2 ^ kp) \<le> (of_nat (nat p) :: rat)" using Bp kp by (simp only: of_nat_le_iff) simp
  then have p1: "(2::rat) ^ kp \<le> of_int p" using p by simp
  have "(of_nat (nat p) :: rat) < of_nat (2 ^ bp)" using Bp by (simp only: of_nat_less_iff)
  then have p2: "of_int p < (2::rat) ^ bp" using p by simp
  have "of_nat (2 ^ kq) \<le> (of_nat (nat q) :: rat)" using Bq kq by (simp only: of_nat_le_iff) simp
  then have q1: "(2::rat) ^ kq \<le> of_int q" using q by simp
  have "(of_nat (nat q) :: rat) < of_nat (2 ^ bq)" using Bq by (simp only: of_nat_less_iff)
  then have q2: "of_int q < (2::rat) ^ bq" using q by simp
  have qr: "(0::rat) < of_int q" using q by simp
  have pr: "(0::rat) < of_int p" using p by simp
  have e0: "pow2 e = 2 ^ bp / 2 ^ bq" unfolding e_def by (rule pow2_diff_nat)
  text \<open>the quotient lies strictly between \<open>2^(e - 1)\<close> and \<open>2^(e + 1)\<close>\<close>
  have up: "x < pow2 (e + 1)"
  proof -
    have "x < 2 ^ bp / of_int q" unfolding x using p2 qr by (simp add: divide_strict_right_mono)
    also have "\<dots> \<le> 2 ^ bp / 2 ^ kq" using q1 by (simp add: frac_le)
    also have "\<dots> = 2 * (2 ^ bp / 2 ^ bq)" unfolding kq by simp
    finally show ?thesis unfolding pow2_Suc e0 .
  qed
  have lo: "pow2 (e - 1) < x"
  proof -
    have "2 * pow2 (e - 1) = 2 ^ bp / 2 ^ bq" using pow2_pred[of e] e0 by simp
    then have "pow2 (e - 1) = 2 ^ kp / 2 ^ bq" unfolding kp by simp
    also have "\<dots> \<le> of_int p / 2 ^ bq" using p1 by (simp add: divide_right_mono)
    also have "\<dots> < of_int p / of_int q" using q2 qr pr by (simp add: frac_less2)
    finally show ?thesis unfolding x .
  qed
  have ex: "exponentOf x = (if pow2 e \<le> x then e else e - 1)"
    unfolding exponentOf_def Let_def e_def bp_def bq_def p_def q_def by simp
  show ?thesis
  proof (cases "pow2 e \<le> x")
    case True
    then show ?thesis using ex up by simp
  next
    case False
    then have "exponentOf x = e - 1" "x < pow2 e" using ex by simp_all
    then show ?thesis using lo by simp
  qed
qed

lemma exponentOf_unique:
  assumes "pow2 e \<le> x" "x < pow2 (e + 1)"
  shows "exponentOf x = e"
proof -
  have x: "0 < x" using assms(1) pow2_pos[of e] by simp
  note b = exponentOf_bounds[OF x]
  have "pow2 e < pow2 (exponentOf x + 1)" using assms(1) b by simp
  then have 1: "e < exponentOf x + 1" by (rule pow2_less_cancel)
  have "pow2 (exponentOf x) < pow2 (e + 1)" using assms(2) b by simp
  then have 2: "exponentOf x < e + 1" by (rule pow2_less_cancel)
  show ?thesis using 1 2 by simp
qed

lemma roundHalfEven_near: "\<bar>of_int (roundHalfEven y) - y\<bar> \<le> 1 / 2"
  unfolding roundHalfEven_def Let_def by (auto simp: abs_if) linarith+

lemma roundHalfEven_unique:
  assumes "\<bar>y - of_int k\<bar> < 1 / 2"
  shows "roundHalfEven y = k"
proof -
  have "\<bar>of_int (roundHalfEven y) - (of_int k :: rat)\<bar> < 1"
    using roundHalfEven_near[of y] assms by linarith
  then have "\<bar>(of_int (roundHalfEven y - k) :: rat)\<bar> < 1" by simp
  then have "\<bar>roundHalfEven y - k\<bar> < 1" by (metis of_int_abs of_int_less_1_iff)
  then show ?thesis by simp
qed

text \<open>The rounding of \<open>x\<close> when its exponent and the nearest multiple are known, and how
  far a rounding can be from \<open>x\<close>.\<close>

lemma toDouble_unique:
  assumes "pow2 e \<le> x" "x < pow2 (e + 1)" "- 1022 \<le> e"
    and "\<bar>x / pow2 (e - 52) - of_int k\<bar> < 1 / 2"
    and "of_int k * pow2 (e - 52) < pow2 1024"
  shows "toDouble x = Finite (of_int k * pow2 (e - 52))"
proof -
  have x: "0 < x" using assms(1) pow2_pos[of e] by simp
  have ex: "max (exponentOf x) (- 1022) = e" using exponentOf_unique[OF assms(1,2)] assms(3) by simp
  have r: "roundHalfEven (x / pow2 (e - 52)) = k" by (rule roundHalfEven_unique[OF assms(4)])
  show ?thesis unfolding toDouble_def Let_def ex r using x assms(5) by simp
qed

lemma toDouble_near:
  assumes "pow2 (- 1022) \<le> x" "x < pow2 1023"
  shows "\<exists>r. toDouble x = Finite r \<and> \<bar>r - x\<bar> \<le> x / 2 ^ 53"
proof -
  have x: "0 < x" using assms(1) pow2_pos[of "- 1022"] by simp
  define e where "e = exponentOf x"
  note b = exponentOf_bounds[OF x, folded e_def]
  have "pow2 (- 1022) < pow2 (e + 1)" using assms(1) b by simp
  then have e1: "- 1022 \<le> e" using pow2_less_cancel by fastforce
  have "pow2 e < pow2 1023" using assms(2) b by simp
  then have e2: "e < 1023" by (rule pow2_less_cancel)
  define ulp where "ulp = pow2 (e - 52)"
  define r where "r = of_int (roundHalfEven (x / ulp)) * ulp"
  have up: "0 < ulp" unfolding ulp_def by (rule pow2_pos)
  have "pow2 e = pow2 (e - 52) * pow2 52" using pow2_add[of "e - 52" 52] by simp
  then have ue: "pow2 e = ulp * 2 ^ 52" unfolding ulp_def by (simp add: pow2_def)
  have "\<bar>of_int (roundHalfEven (x / ulp)) - x / ulp\<bar> \<le> 1 / 2" by (rule roundHalfEven_near)
  then have "\<bar>of_int (roundHalfEven (x / ulp)) - x / ulp\<bar> * ulp \<le> 1 / 2 * ulp"
    using up by (simp add: mult_right_mono)
  moreover have "\<bar>of_int (roundHalfEven (x / ulp)) - x / ulp\<bar> * ulp = \<bar>r - x\<bar>"
  proof -
    have "\<bar>of_int (roundHalfEven (x / ulp)) - x / ulp\<bar> * ulp
            = \<bar>(of_int (roundHalfEven (x / ulp)) - x / ulp) * ulp\<bar>"
      using up by (simp add: abs_mult)
    also have "(of_int (roundHalfEven (x / ulp)) - x / ulp) * ulp = r - x"
      unfolding r_def using up by (simp add: algebra_simps)
    finally show ?thesis .
  qed
  ultimately have d: "\<bar>r - x\<bar> \<le> ulp / 2" by simp
  have "ulp * 2 ^ 52 \<le> x" using b ue by simp
  then have "ulp \<le> x / 2 ^ 52" by (simp add: pos_le_divide_eq)
  then have d2: "\<bar>r - x\<bar> \<le> x / 2 ^ 53" using d by simp
  have "x < 2 * pow2 e" using b pow2_Suc by simp
  moreover have "pow2 e \<le> pow2 1022" using e2 by (intro pow2_mono) simp
  ultimately have "x < 2 * pow2 1022" by simp
  moreover have "r - x \<le> \<bar>r - x\<bar>" by simp
  then have "r \<le> x + x / 2 ^ 53" using d2 by linarith
  moreover have "x / 2 ^ 53 \<le> x" using x by (simp add: pos_divide_le_eq)
  ultimately have "r < 4 * pow2 1022" by simp
  moreover have "pow2 1024 = 4 * pow2 1022" using pow2_add[of 2 1022] by (simp add: pow2_def)
  ultimately have fin: "\<not> pow2 1024 \<le> r" by simp
  have ex: "max (exponentOf x) (- 1022) = e" using e1 e_def by simp
  have "toDouble x = Finite r"
    unfolding toDouble_def Let_def ex using x fin unfolding r_def ulp_def by simp
  then show ?thesis using d2 by blast
qed

lemma pow2_53: "pow2 53 = 9007199254740992" "pow2 (- 53) = 1 / 9007199254740992"
  "pow2 0 = 1" "pow2 (- 1) = 1 / 2" "pow2 40 = 1099511627776"
  by (simp_all add: pow2_def power_int_minus_divide)


lemma ninetyPercent_value: "ninetyPercent = 8106479329266893 / 9007199254740992"
proof -
  have 1: "pow2 (- 1) \<le> 9 / 10" by (simp add: pow2_53)
  have 2: "(9 / 10 :: rat) < pow2 (- 1 + 1)" by (simp add: pow2_53)
  have 3: "(- 1022 :: int) \<le> - 1" by simp
  have 4: "\<bar>9 / 10 / pow2 (- 1 - 52) - rat_of_int 8106479329266893\<bar> < 1 / 2"
    by (simp add: pow2_53)
  have "rat_of_int 8106479329266893 * pow2 (- 1 - 52) < pow2 0" by (simp add: pow2_53)
  also have "pow2 0 < pow2 1024" by (rule pow2_strict_mono) simp
  finally have 5: "rat_of_int 8106479329266893 * pow2 (- 1 - 52) < pow2 1024" .
  have "toDouble (9 / 10) = Finite (of_int 8106479329266893 * pow2 (- 1 - 52))"
    by (rule toDouble_unique[OF 1 2 3 4 5])
  then show ?thesis by (simp add: ninetyPercent_def pow2_53)
qed

text \<open>For a whole number of milliseconds up to \<open>10^12\<close> the double comparison with
  \<open>e * 0.9\<close> decides exactly whether \<open>a\<close> is below nine tenths of \<open>e\<close>.\<close>

lemma ninety_percent_exact:
  fixes n a :: int
  assumes "0 < n" "n \<le> 10 ^ 12"
  shows "lessNumber (Finite (of_int a)) (timesDouble (Finite (of_int n)) ninetyPercent)
           \<longleftrightarrow> 10 * a < 9 * n"
proof -
  define x :: rat where "x = of_int n * (8106479329266893 / 9007199254740992)"
  have t: "timesDouble (Finite (of_int n)) ninetyPercent = toDouble x"
    by (simp add: timesDouble_def ninetyPercent_value x_def)
  have nr: "(1::rat) \<le> of_int n" "(of_int n :: rat) \<le> 10 ^ 12"
    using assms by (simp_all add: of_int_le_iff[of n "10 ^ 12", where ?'a = rat, simplified])
  have xv: "x = 9 * of_int n / 10 + of_int n / 45035996273704960"
    unfolding x_def by (simp add: field_simps)
  have x1: "1 / 2 \<le> x" using nr(1) unfolding x_def by simp
  have x2: "x \<le> 10 ^ 12" using nr unfolding x_def by simp
  show ?thesis
  proof (cases "10 dvd n")
    case True
    then obtain m where m: "n = 10 * m" by (auto simp: dvd_def)
    have m0: "0 < m" using assms(1) m by simp
    have mr: "(1::rat) \<le> of_int m" using m0 by simp
    have xm: "x = 9 * of_int m + of_int m / 4503599627370496"
      unfolding xv m by simp
    define e where "e = exponentOf x"
    have x0: "0 < x" using x1 by simp
    note b = exponentOf_bounds[OF x0, folded e_def]
    have "pow2 (- 1) < pow2 (e + 1)" using b x1 by (simp add: pow2_53)
    then have e1: "- 1 \<le> e" using pow2_less_cancel by fastforce
    have "pow2 e < pow2 40" using b x2 by (simp add: pow2_53)
    then have e2: "e < 40" by (rule pow2_less_cancel)
    define j where "j = nat (52 - e)"
    have j: "int j = 52 - e" using e2 unfolding j_def by simp
    have u: "pow2 (e - 52) * 2 ^ j = 1"
    proof -
      have "pow2 (e - 52) * pow2 (int j) = pow2 0" using pow2_add[of "e - 52" "int j"] j by simp
      then show ?thesis by (simp add: pow2_nat pow2_53)
    qed
    define ulp where "ulp = pow2 (e - 52)"
    have up: "0 < ulp" unfolding ulp_def by (rule pow2_pos)
    have "pow2 e = pow2 (e - 52) * pow2 52" using pow2_add[of "e - 52" 52] by simp
    then have ue: "pow2 e = ulp * 4503599627370496" unfolding ulp_def by (simp add: pow2_def)
    define k where "k = 9 * m * 2 ^ j"
    have kx: "(of_int k :: rat) * ulp = 9 * of_int m"
    proof -
      have "(of_int k :: rat) * ulp = 9 * of_int m * (pow2 (e - 52) * 2 ^ j)"
        unfolding k_def ulp_def by simp
      then show ?thesis using u by simp
    qed
    have "x < 2 * pow2 e" using b pow2_Suc by simp
    then have "9 * of_int m < 2 * (ulp * 4503599627370496)" using xm mr ue by simp
    then have small: "of_int m / 4503599627370496 < ulp / 2" using mr by simp
    have "x / ulp - of_int k = (x - of_int k * ulp) / ulp" using up by (simp add: field_simps)
    also have "\<dots> = (of_int m / 4503599627370496) / ulp" unfolding kx xm by simp
    finally have d: "x / ulp - of_int k = (of_int m / 4503599627370496) / ulp" .
    have "0 \<le> (of_int m / 4503599627370496) / ulp" using mr up by simp
    moreover have "(of_int m / 4503599627370496) / ulp < 1 / 2"
      using small up by (simp add: field_simps)
    ultimately have c: "\<bar>x / pow2 (e - 52) - of_int k\<bar> < 1 / 2"
      unfolding d[unfolded ulp_def, symmetric] ulp_def[symmetric] d by simp
    have "9 * (of_int m :: rat) \<le> 10 ^ 12" using x2 xm mr by simp
    also have "(10 ^ 12 :: rat) < pow2 40" by (simp add: pow2_53)
    also have "pow2 40 < pow2 1024" by (rule pow2_strict_mono) simp
    finally have f: "of_int k * pow2 (e - 52) < pow2 1024" using kx unfolding ulp_def by simp
    have "toDouble x = Finite (of_int k * pow2 (e - 52))"
      using toDouble_unique[OF _ _ _ c f] b e1 by simp
    then have "toDouble x = Finite (9 * of_int m)" using kx unfolding ulp_def by simp
    then have "lessNumber (Finite (of_int a)) (toDouble x) \<longleftrightarrow> (of_int a :: rat) < of_int (9 * m)"
      by (simp add: lessNumber_def)
    also have "\<dots> \<longleftrightarrow> a < 9 * m" by (simp only: of_int_less_iff)
    also have "\<dots> \<longleftrightarrow> 10 * a < 9 * n" unfolding m by simp
    finally show ?thesis unfolding t .
  next
    case False
    have nd: "\<not> 10 dvd 9 * n" using False by presburger
    define N where "N = (9 * n) div 10"
    define k where "k = (9 * n) mod 10"
    have "k \<noteq> 0" using nd unfolding k_def by (simp add: dvd_eq_mod_eq_0)
    moreover have "0 \<le> k" "k < 10" unfolding k_def by simp_all
    moreover have "9 * n = 10 * N + k" unfolding N_def k_def by simp
    ultimately have k: "1 \<le> k" "k \<le> 9" "9 * n = 10 * N + k" by simp_all
    have "(of_int (9 * n) :: rat) = of_int (10 * N + k)" using k(3) by simp
    then have nN: "9 * (of_int n :: rat) = 10 * of_int N + of_int k" by simp
    have kr: "(1::rat) \<le> of_int k" "(of_int k :: rat) \<le> 9" using k(1,2) by simp_all
    have xN: "x = of_int N + of_int k / 10 + of_int n / 45035996273704960"
      unfolding xv nN by (simp add: field_simps)
    have nq: "0 \<le> (of_int n :: rat) / 45035996273704960"
      "(of_int n :: rat) / 45035996273704960 \<le> 1 / 1000" using nr by simp_all
    have kq: "1 / 10 \<le> (of_int k :: rat) / 10" "(of_int k :: rat) / 10 \<le> 9 / 10"
      using kr by simp_all
    have "pow2 (- 1022) \<le> pow2 (- 1)" by (rule pow2_mono) simp
    then have a1: "pow2 (- 1022) \<le> x" using x1 by (simp add: pow2_53)
    have "x < pow2 40" using x2 by (simp add: pow2_53)
    also have "pow2 40 < pow2 1023" by (rule pow2_strict_mono) simp
    finally have a2: "x < pow2 1023" .
    obtain r where r: "toDouble x = Finite r" "\<bar>r - x\<bar> \<le> x / 2 ^ 53"
      using toDouble_near[OF a1 a2] by blast
    have err: "x / 2 ^ 53 \<le> 1 / 1000" using x2 by simp
    have lo: "of_int N < r"
    proof -
      have "x - r \<le> \<bar>r - x\<bar>" by simp
      then have "x - 1 / 1000 \<le> r" using r(2) err by linarith
      moreover have "of_int N + 1 / 10 \<le> x" using xN nq(1) kq(1) by linarith
      ultimately show ?thesis by linarith
    qed
    have hi: "r < of_int N + 1"
    proof -
      have "r - x \<le> \<bar>r - x\<bar>" by simp
      then have "r \<le> x + 1 / 1000" using r(2) err by linarith
      moreover have "x \<le> of_int N + 9 / 10 + 1 / 1000" using xN nq(2) kq(2) by linarith
      ultimately show ?thesis by linarith
    qed
    have "lessNumber (Finite (of_int a)) (toDouble x) \<longleftrightarrow> (of_int a :: rat) < r"
      by (simp add: lessNumber_def r(1))
    also have "\<dots> \<longleftrightarrow> a \<le> N"
    proof
      assume "(of_int a :: rat) < r"
      then have "(of_int a :: rat) < of_int (N + 1)" using hi by simp
      then have "a < N + 1" by (simp only: of_int_less_iff)
      then show "a \<le> N" by simp
    next
      assume "a \<le> N"
      then have "(of_int a :: rat) \<le> of_int N" by simp
      then show "(of_int a :: rat) < r" using lo by simp
    qed
    also have "\<dots> \<longleftrightarrow> 10 * a < 9 * n" using k by linarith
    finally show ?thesis unfolding t .
  qed
qed

subsection \<open>Transcode driver: output validation\<close>

lemma expectedDurationOf_Some:
  "expectedDurationOf c = Some e \<longleftrightarrow>
     isVodPlaylist c \<and> parsePlaylistDurationMs c = Some e \<and> e \<noteq> Finite 0"
  by (auto simp: expectedDurationOf_def split: option.splits)



lemma mathRound_int: "mathRound (of_int n) = n"
proof -
  have "\<lfloor>(of_int n :: rat) + 1 / 2\<rfloor> = n" by (rule floor_unique) simp_all
  then show ?thesis by (simp add: mathRound_def)
qed






text \<open>The example playlists, line by line.\<close>

lemma extinfSeconds_other: "\<not> startsWith (trim line) ''#EXTINF:'' \<Longrightarrow> extinfSeconds line = None"
  by (simp add: extinfSeconds_def Let_def)





text \<open>Rounding is visible: the one duration \<open>0.5005\<close> is read as the double just below it,
  whose product with 1000 rounds to a double below \<open>500.5\<close>; the playlist declares 500
  milliseconds, and a run that reports 450 of them is accepted.\<close>

lemma pow2_small: "pow2 8 = 256" "pow2 9 = 512" "pow2 (- 44) = 1 / 17592186044416"
  by (simp_all add: pow2_def power_int_minus_divide)

lemma half_second_double:
  "toDouble (1001 / 2000) = Finite (2254051613498933 / 4503599627370496)"
  "toDouble (2254051613498933 / 4503599627370496) = Finite (2254051613498933 / 4503599627370496)"
proof -
  have 3: "(- 1022 :: int) \<le> - 1" by simp
  have "rat_of_int 4508103226997866 * pow2 (- 1 - 52) < pow2 0" by (simp add: pow2_53)
  also have "pow2 0 < pow2 1024" by (rule pow2_strict_mono) simp
  finally have 5: "rat_of_int 4508103226997866 * pow2 (- 1 - 52) < pow2 1024" .
  have a1: "pow2 (- 1) \<le> 1001 / 2000" by (simp add: pow2_53)
  have a2: "(1001 / 2000 :: rat) < pow2 (- 1 + 1)" by (simp add: pow2_53)
  have a4: "\<bar>1001 / 2000 / pow2 (- 1 - 52) - rat_of_int 4508103226997866\<bar> < 1 / 2"
    by (simp add: pow2_53)
  have "toDouble (1001 / 2000) = Finite (of_int 4508103226997866 * pow2 (- 1 - 52))"
    by (rule toDouble_unique[OF a1 a2 3 a4 5])
  then show "toDouble (1001 / 2000) = Finite (2254051613498933 / 4503599627370496)"
    by (simp add: pow2_53)
  have b1: "pow2 (- 1) \<le> 2254051613498933 / 4503599627370496" by (simp add: pow2_53)
  have b2: "(2254051613498933 / 4503599627370496 :: rat) < pow2 (- 1 + 1)" by (simp add: pow2_53)
  have b4: "\<bar>2254051613498933 / 4503599627370496 / pow2 (- 1 - 52)
              - rat_of_int 4508103226997866\<bar> < 1 / 2"
    by (simp add: pow2_53)
  have "toDouble (2254051613498933 / 4503599627370496)
          = Finite (of_int 4508103226997866 * pow2 (- 1 - 52))"
    by (rule toDouble_unique[OF b1 b2 3 b4 5])
  then show "toDouble (2254051613498933 / 4503599627370496)
          = Finite (2254051613498933 / 4503599627370496)"
    by (simp add: pow2_53)
qed

lemma half_second_product:
  "toDouble (2254051613498933 / 4503599627370496 * 1000)
     = Finite (8804889115230207 / 17592186044416)"
proof -
  have 1: "pow2 8 \<le> 2254051613498933 / 4503599627370496 * 1000" by (simp add: pow2_small)
  have 2: "(2254051613498933 / 4503599627370496 * 1000 :: rat) < pow2 (8 + 1)"
    by (simp add: pow2_small)
  have 3: "(- 1022 :: int) \<le> 8" by simp
  have 4: "\<bar>2254051613498933 / 4503599627370496 * 1000 / pow2 (8 - 52)
              - rat_of_int 8804889115230207\<bar> < 1 / 2"
    by (simp add: pow2_small)
  have "rat_of_int 8804889115230207 * pow2 (8 - 52) < pow2 9" by (simp add: pow2_small)
  also have "pow2 9 < pow2 1024" by (rule pow2_strict_mono) simp
  finally have 5: "rat_of_int 8804889115230207 * pow2 (8 - 52) < pow2 1024" .
  have "toDouble (2254051613498933 / 4503599627370496 * 1000)
          = Finite (of_int 8804889115230207 * pow2 (8 - 52))"
    by (rule toDouble_unique[OF 1 2 3 4 5])
  then show ?thesis by (simp add: pow2_small)
qed

lemma half_second_found:
  "List.map_filter extinfSeconds (splitLines halfSecondPlaylist)
     = [2254051613498933 / 4503599627370496]"
proof -
  have v: "splitLines halfSecondPlaylist
             = [''#EXTM3U'', ''#EXTINF:0.5005,'', ''seg1.ts'', ''#EXT-X-ENDLIST'']"
    by code_simp
  have "\<not> startsWith (trim ''#EXTM3U'') ''#EXTINF:''" by code_simp
  then have 1: "extinfSeconds ''#EXTM3U'' = None" by (rule extinfSeconds_other)
  have "\<not> startsWith (trim ''seg1.ts'') ''#EXTINF:''" by code_simp
  then have 2: "extinfSeconds ''seg1.ts'' = None" by (rule extinfSeconds_other)
  have "\<not> startsWith (trim ''#EXT-X-ENDLIST'') ''#EXTINF:''" by code_simp
  then have 3: "extinfSeconds ''#EXT-X-ENDLIST'' = None" by (rule extinfSeconds_other)
  have t: "trim ''#EXTINF:0.5005,'' = ''#EXTINF:0.5005,''" by code_simp
  have s: "startsWith ''#EXTINF:0.5005,'' ''#EXTINF:''" by code_simp
  have c: "takeWhile (\<lambda>c. isDigit c \<or> c = CHR ''.'') (drop 8 ''#EXTINF:0.5005,'') = ''0.5005''"
    by code_simp
  have "parseFloatDigits ''0.5005'' = Some (toDouble (1001 / 2000))"
    unfolding parseFloatDigits_def Let_def by (simp add: isDigit_def digitsValue_def)
  then have p: "parseFloatDigits ''0.5005'' = Some (Finite (2254051613498933 / 4503599627370496))"
    by (simp add: half_second_double)
  have 4: "extinfSeconds ''#EXTINF:0.5005,'' = Some (2254051613498933 / 4503599627370496)"
    unfolding extinfSeconds_def Let_def t c p using s by simp
  show ?thesis unfolding v by (simp add: List.map_filter_simps 1 2 3 4)
qed

lemma half_second_total: "parsePlaylistDurationMs halfSecondPlaylist = Some (Finite 500)"
proof -
  have "\<lfloor>(8804889115230207 / 17592186044416 :: rat) + 1 / 2\<rfloor> = 500"
    by (rule floor_unique) simp_all
  then have m: "mathRound (8804889115230207 / 17592186044416) = 500" by (simp add: mathRound_def)
  have a: "addNumber (Finite 0) (Finite (2254051613498933 / 4503599627370496))
      = Finite (2254051613498933 / 4503599627370496)"
    by (simp only: addNumber_def number.case add_0 half_second_double)
  have t: "timesDouble (Finite (2254051613498933 / 4503599627370496)) 1000
      = Finite (8804889115230207 / 17592186044416)"
    by (simp only: timesDouble_def number.case half_second_product)
  have r: "roundNumber (Finite (8804889115230207 / 17592186044416)) = Finite 500"
    by (simp add: roundNumber_def m)
  have "foldl (\<lambda>total seconds. addNumber total (Finite seconds)) (Finite 0)
          [2254051613498933 / 4503599627370496] = Finite (2254051613498933 / 4503599627370496)"
    by (simp only: foldl_Cons foldl_Nil a)
  then show ?thesis
    unfolding parsePlaylistDurationMs_def Let_def half_second_found by (simp only: t r) simp
qed

lemma half_second_accepted:
  "validateOutput (Some 1024) (expectedDurationOf halfSecondPlaylist) (okRun 450) = Inr (Some 450)"
proof -
  have v: "isVodPlaylist halfSecondPlaylist" by code_simp
  have e: "expectedDurationOf halfSecondPlaylist = Some (Finite 500)"
    using v half_second_total by (simp add: expectedDurationOf_Some)
  have "mathRound (of_int 450) = 450" by (rule mathRound_int)
  then have a: "attemptDurationOf (okRun 450) = Some 450"
    by (simp add: attemptDurationOf_def okRun_def ffmpegResultOf_def)
  have "\<not> lessNumber (Finite (of_int 450)) (timesDouble (Finite (of_int 500)) ninetyPercent)"
    using ninety_percent_exact[of 500 450] by simp
  then have l: "\<not> lessNumber (Finite 450) (timesDouble (Finite 500) ninetyPercent)" by simp
  show ?thesis unfolding validateOutput_def Let_def e a using l
    by (simp add: okRun_def ffmpegResultOf_def)
qed




subsection \<open>Proxy gateway\<close>

text \<open>
  Claim C7, as amended. For a request that names a target (a non-empty \<open>u\<close> or \<open>url\<close>
  parameter) while the cache answers: if the token is missing or empty, or the cache
  holds nothing (or a falsy value) under it, the gateway answers status 403 with the
  error \<open>Unauthorized\<close>. If the token is known, the target parses to an http or https URL
  whose host is not blocked and whose lower-cased path ends in an image extension, and
  the stored context does not permit image segments, the gateway answers status 422
  with the text \<open>Unsupported segment type\<close>.
\<close>

theorem proxy_gateway_rejections:
  assumes named: "truthyStr (paramU request) \<or> truthyStr (paramUrl request)"
    and av: "available d"
  shows "((\<not> truthyStr (paramToken request)
            \<or> \<not> truthyValue (map_option fst (store d (''download-proxy:'' @ the (paramToken request)))))
          \<longrightarrow> proxyGET urlParse b64 fetchUpstream d request = JsonError 403 ''Unauthorized'')
       \<and> (truthyStr (paramToken request)
           \<and> truthyValue (map_option fst (store d (''download-proxy:'' @ the (paramToken request))))
           \<and> (\<forall>c ttl. store d (''download-proxy:'' @ the (paramToken request)) = Some (VObj c, ttl)
                  \<longrightarrow> \<not> allowImageSegments c)
           \<and> (if truthyStr (paramU request) then b64 (the (paramU request))
               else Some (case paramUrl request of None \<Rightarrow> [] | Some u \<Rightarrow> u)) = Some resolvedUrl
           \<and> urlParse resolvedUrl (requestUrl request) = Some targetUrl
           \<and> (protocol targetUrl = ''http:'' \<or> protocol targetUrl = ''https:'')
           \<and> \<not> (isPrivateHost (hostname targetUrl)
                 \<and> Some (toLowerCase (hostname targetUrl)) \<noteq>
                    (case hostHeader request of None \<Rightarrow> None
                     | Some h \<Rightarrow> Some (toLowerCase (hd (splitOn (CHR '':'') h)))))
           \<and> endsWithInvalidExtension (toLowerCase (pathname targetUrl))
          \<longrightarrow> proxyGET urlParse b64 fetchUpstream d request =
                PlainText 422 ''Unsupported segment type'')"
proof (intro conjI impI)
  assume "\<not> truthyStr (paramToken request)
            \<or> \<not> truthyValue (map_option fst (store d (''download-proxy:'' @ the (paramToken request))))"
  then show "proxyGET urlParse b64 fetchUpstream d request = JsonError 403 ''Unauthorized''"
    using named av by (auto simp: proxyGET_def getCache_def)
next
  assume h: "truthyStr (paramToken request)
           \<and> truthyValue (map_option fst (store d (''download-proxy:'' @ the (paramToken request))))
           \<and> (\<forall>c ttl. store d (''download-proxy:'' @ the (paramToken request)) = Some (VObj c, ttl)
                  \<longrightarrow> \<not> allowImageSegments c)
           \<and> (if truthyStr (paramU request) then b64 (the (paramU request))
               else Some (case paramUrl request of None \<Rightarrow> [] | Some u \<Rightarrow> u)) = Some resolvedUrl
           \<and> urlParse resolvedUrl (requestUrl request) = Some targetUrl
           \<and> (protocol targetUrl = ''http:'' \<or> protocol targetUrl = ''https:'')
           \<and> \<not> (isPrivateHost (hostname targetUrl)
                 \<and> Some (toLowerCase (hostname targetUrl)) \<noteq>
                    (case hostHeader request of None \<Rightarrow> None
                     | Some h \<Rightarrow> Some (toLowerCase (hd (splitOn (CHR '':'') h)))))
           \<and> endsWithInvalidExtension (toLowerCase (pathname targetUrl))"
  let ?tv = "map_option fst (store d (''download-proxy:'' @ the (paramToken request)))"
  have g: "getCache d (''download-proxy:'' @ the (paramToken request)) = Inr ?tv"
    using av by (simp add: getCache_def)
  have na: "(case (case ?tv of Some (VObj c) \<Rightarrow> Some c | _ \<Rightarrow> None) of
               Some c \<Rightarrow> allowImageSegments c | None \<Rightarrow> False) = False"
    using h by (auto split: option.splits cache_value.splits)
  show "proxyGET urlParse b64 fetchUpstream d request = PlainText 422 ''Unsupported segment type''"
    unfolding proxyGET_def Let_def g using named h na
    by (simp split: option.splits)
qed

theorem proxy_gateway_rejections_witness:
  "proxyGET exampleUrlParse (\<lambda>s. None) noUpstream tokenDb (imageRequest (Some ''tok2''))
     = JsonError 403 ''Unauthorized''
   \<and> proxyGET exampleUrlParse (\<lambda>s. None) noUpstream tokenDb (imageRequest (Some ''tok1''))
     = PlainText 422 ''Unsupported segment type''"
proof -
  have av: "available tokenDb" by (simp add: tokenDb_def)
  have n: "truthyStr (paramU (imageRequest t)) \<or> truthyStr (paramUrl (imageRequest t))" for t
    by (simp add: imageRequest_def truthyStr_def)
  have unknown: "\<not> truthyValue (map_option fst (store tokenDb
        (''download-proxy:'' @ the (paramToken (imageRequest (Some ''tok2''))))))"
    by (simp add: tokenDb_def imageRequest_def truthyValue_def)
  have a: "proxyGET exampleUrlParse (\<lambda>s. None) noUpstream tokenDb (imageRequest (Some ''tok2''))
     = JsonError 403 ''Unauthorized''"
    using proxy_gateway_rejections[where request = "imageRequest (Some ''tok2'')" and d = tokenDb
        and urlParse = exampleUrlParse and ?b64.0 = "\<lambda>s. None" and fetchUpstream = noUpstream, OF n av]
      unknown by blast
  have known: "truthyStr (paramToken (imageRequest (Some ''tok1'')))
     \<and> truthyValue (map_option fst (store tokenDb
           (''download-proxy:'' @ the (paramToken (imageRequest (Some ''tok1''))))))
     \<and> (\<forall>c ttl. store tokenDb (''download-proxy:'' @ the (paramToken (imageRequest (Some ''tok1''))))
            = Some (VObj c, ttl) \<longrightarrow> \<not> allowImageSegments c)"
    by (simp add: tokenDb_def imageRequest_def truthyValue_def truthyStr_def plainCtx_def)
  have target: "(if truthyStr (paramU (imageRequest (Some ''tok1'')))
                 then (\<lambda>s. None) (the (paramU (imageRequest (Some ''tok1''))))
                 else Some (case paramUrl (imageRequest (Some ''tok1'')) of None \<Rightarrow> [] | Some u \<Rightarrow> u))
                = Some ''https://cdn.example/seg1.jpg''
     \<and> exampleUrlParse ''https://cdn.example/seg1.jpg'' (requestUrl (imageRequest (Some ''tok1'')))
        = Some \<lparr>protocol = ''https:'', hostname = ''cdn.example'', pathname = ''/seg1.jpg'',
                 href = ''https://cdn.example/seg1.jpg''\<rparr>"
    by (simp add: imageRequest_def truthyStr_def exampleUrlParse_def)
  have host: "\<not> isPrivateHost ''cdn.example''" by code_simp
  have ext: "endsWithInvalidExtension (toLowerCase ''/seg1.jpg'')" by code_simp
  have b: "proxyGET exampleUrlParse (\<lambda>s. None) noUpstream tokenDb (imageRequest (Some ''tok1''))
     = PlainText 422 ''Unsupported segment type''"
    using proxy_gateway_rejections[where request = "imageRequest (Some ''tok1'')" and d = tokenDb
        and urlParse = exampleUrlParse and ?b64.0 = "\<lambda>s. None" and fetchUpstream = noUpstream
        and resolvedUrl = "''https://cdn.example/seg1.jpg''"
        and targetUrl = "\<lparr>protocol = ''https:'', hostname = ''cdn.example'',
          pathname = ''/seg1.jpg'', href = ''https://cdn.example/seg1.jpg''\<rparr>", OF n av]
      known target host ext by simp
  show ?thesis using a b by blast
qed

text \<open>The message the gateway sends with status 422 is not the one that starts
  \<open>Unexpected segment content-type\<close>; that one goes with status 502.\<close>

theorem proxy_gateway_message_counterexample:
  "proxyGET exampleUrlParse (\<lambda>s. None) noUpstream tokenDb (imageRequest (Some ''tok1''))
     = PlainText 422 ''Unsupported segment type''
   \<and> \<not> startsWith ''Unsupported segment type'' ''Unexpected segment content-type''"
proof -
  have "proxyGET exampleUrlParse (\<lambda>s. None) noUpstream tokenDb (imageRequest (Some ''tok1''))
     = PlainText 422 ''Unsupported segment type''" by code_simp
  moreover have "\<not> startsWith ''Unsupported segment type'' ''Unexpected segment content-type''"
    by code_simp
  ultimately show ?thesis by blast
qed

subsection \<open>Retries, back-off and failure in the segment fetcher pool\<close>





lemma retry_failure_remains:
  "attempt \<le> retries \<Longrightarrow>
   fst (downloadFileWithRetry net url filePath timeoutMs retries attempt) = Inl e \<Longrightarrow>
     \<exists>k msg ab. attempt \<le> k \<and> k \<le> retries \<and> net url filePath k = Failure msg ab
                \<and> (ab \<or> k = retries)"
proof (induction net url filePath timeoutMs retries attempt rule: downloadFileWithRetry.induct)
  case (1 net url filePath timeoutMs retries attempt)
  show ?case
  proof (cases "net url filePath attempt")
    case Saved
    then show ?thesis using "1.prems" by (subst (asm) downloadFileWithRetry.simps) simp
  next
    case (Failure msg aborted)
    show ?thesis
    proof (cases "aborted \<or> attempt \<ge> retries")
      case True
      then have "aborted \<or> attempt = retries" using "1.prems"(1) by auto
      then show ?thesis using Failure "1.prems"(1) by blast
    next
      case False
      then have lt: "attempt + 1 \<le> retries" and na: "\<not> aborted" and nr: "\<not> attempt \<ge> retries"
        by auto
      have "fst (downloadFileWithRetry net url filePath timeoutMs retries (attempt + 1)) = Inl e"
        using "1.prems" Failure na nr
        by (subst (asm) downloadFileWithRetry.simps) (simp add: case_prod_beta)
      then obtain k m ab where "attempt + 1 \<le> k" "k \<le> retries" "net url filePath k = Failure m ab"
          "ab \<or> k = retries"
        using "1.IH"[OF "1.prems"(1) Failure na nr lt] by blast
      then show ?thesis by (metis add_leD1)
    qed
  qed
qed













subsection \<open>Header and URL directive parser\<close>

lemma set_trim_subset: "set (trim s) \<subseteq> set s"
proof -
  have "set (trim s) \<subseteq> set (dropWhile isSpace s)"
    unfolding trim_def using set_dropWhileD[of _ isSpace "rev (dropWhile isSpace s)"] by auto
  also have "\<dots> \<subseteq> set s" using set_dropWhileD[of _ isSpace s] by auto
  finally show ?thesis .
qed

lemma dropWhile_rev_stable:
  assumes "t = [] \<or> \<not> P (hd t)"
  shows "dropWhile P (rev (dropWhile P (rev t))) = rev (dropWhile P (rev t))"
proof (cases t)
  case Nil
  then show ?thesis by simp
next
  case (Cons a u)
  then have na: "\<not> P a" using assms by simp
  obtain zs where zs: "rev t = zs @ dropWhile P (rev t)"
    by (metis takeWhile_dropWhile_id)
  have ne: "dropWhile P (rev t) \<noteq> []"
    using na Cons by (auto simp: dropWhile_eq_Nil_conv)
  have "t = rev (dropWhile P (rev t)) @ rev zs"
    using zs by (metis rev_append rev_rev_ident)
  then have "hd (rev (dropWhile P (rev t))) = a"
    using ne Cons by (metis hd_append2 list.sel(1) rev_is_Nil_conv)
  then obtain w where "rev (dropWhile P (rev t)) = a # w"
    using ne by (metis list.collapse rev_is_Nil_conv)
  then show ?thesis using na by simp
qed

lemma dropWhile_rev_dropWhile:
  "dropWhile P (rev (dropWhile P (rev (dropWhile P s)))) = rev (dropWhile P (rev (dropWhile P s)))"
proof (rule dropWhile_rev_stable)
  show "dropWhile P s = [] \<or> \<not> P (hd (dropWhile P s))"
    by (metis hd_dropWhile)
qed

lemma trim_idem: "trim (trim s) = trim s"
  unfolding trim_def by (simp add: dropWhile_rev_dropWhile dropWhile_idem)

lemma replaceCRLF_clean: "c \<in> set (replaceCRLF s) \<Longrightarrow> \<not> isCRLF c"
  by (induction s rule: replaceCRLF.induct) (auto simp: isCRLF_def split: if_splits)

lemma sanitize_clean: "CHR 0x0D \<notin> set (sanitizeHeaderValue v) \<and> CHR 0x0A \<notin> set (sanitizeHeaderValue v)"
  using replaceCRLF_clean[of _ v] set_trim_subset[of "replaceCRLF v"]
  unfolding sanitizeHeaderValue_def isCRLF_def by blast

lemma splitOn_unfold:
  "splitOn d s = takeWhile (\<lambda>c. c \<noteq> d) s #
      (if d \<in> set s then splitOn d (tl (dropWhile (\<lambda>c. c \<noteq> d) s)) else [])"
  by (induction s) (auto split: list.splits)

lemma joinWith_splitOn: "joinWith [d] (splitOn d s) = s"
proof (induction s)
  case Nil
  then show ?case by simp
next
  case (Cons c s)
  show ?case
  proof (cases "c = d")
    case True
    then show ?thesis using Cons by (cases "splitOn d s") auto
  next
    case False
    then show ?thesis using Cons
      by (cases "splitOn d s"; cases "tl (splitOn d s)") auto
  qed
qed

lemma splitOn_nonempty: "splitOn d s \<noteq> []"
  by (induction s) (auto split: list.splits)

lemma assignHeader_unrecognised: "k \<notin> set recognisedKeys \<Longrightarrow> assignHeader h k v = h"
  by (simp add: assignHeader_def recognisedKeys_def)

lemma pairKeyValue_Some:
  assumes "pairKeyValue dec pair = Some (k, v)"
  shows "CHR ''='' \<in> set (trim pair)
       \<and> k = toLowerCase (trim (takeWhile (\<lambda>c. c \<noteq> CHR ''='') (trim pair)))
       \<and> v = sanitizeHeaderValue
              (let rawValue = trim (tl (dropWhile (\<lambda>c. c \<noteq> CHR ''='') (trim pair)))
               in case dec rawValue of Some x \<Rightarrow> x | None \<Rightarrow> rawValue)
       \<and> v \<noteq> []"
proof -
  let ?p = "trim pair"
  have sp: "splitOn (CHR ''='') ?p = takeWhile (\<lambda>c. c \<noteq> CHR ''='') ?p #
      (if CHR ''='' \<in> set ?p then splitOn (CHR ''='') (tl (dropWhile (\<lambda>c. c \<noteq> CHR ''='') ?p)) else [])"
    by (rule splitOn_unfold)
  have mem: "CHR ''='' \<in> set ?p"
    using assms sp by (auto simp: pairKeyValue_def Let_def split: if_splits list.splits)
  have j: "joinWith ''='' (splitOn (CHR ''='') (tl (dropWhile (\<lambda>c. c \<noteq> CHR ''='') ?p)))
             = tl (dropWhile (\<lambda>c. c \<noteq> CHR ''='') ?p)"
    by (rule joinWith_splitOn)
  show ?thesis
    using assms mem j unfolding pairKeyValue_def Let_def
    by (subst (asm) sp) (auto split: if_splits cong: option.case_cong)
qed

lemma processPair_clean: "cleanHeaders h \<Longrightarrow> cleanHeaders (processPair dec h pair)"
proof (cases "pairKeyValue dec pair")
  case None
  then show "cleanHeaders h \<Longrightarrow> ?thesis" by (simp add: processPair_def)
next
  case (Some kv)
  obtain k v where kv: "kv = (k, v)" by (cases kv)
  have "v \<noteq> [] \<and> CHR 0x0D \<notin> set v \<and> CHR 0x0A \<notin> set v"
    using pairKeyValue_Some[of dec pair k v] Some kv sanitize_clean by auto
  then show "cleanHeaders h \<Longrightarrow> ?thesis"
    using Some kv by (auto simp: processPair_def assignHeader_def cleanHeaders_def cleanValue_def)
qed

lemma foldl_processPair_clean: "cleanHeaders h \<Longrightarrow> cleanHeaders (foldl (processPair dec) h ps)"
  by (induction ps arbitrary: h) (auto simp: processPair_clean)

lemma parse_url: "purl (parseUrlWithHeaders dec raw) = trim (takeWhile (\<lambda>c. c \<noteq> CHR ''|'') (trim raw))"
proof (cases "CHR ''|'' \<in> set (trim raw)")
  case True
  then show ?thesis by (simp add: parseUrlWithHeaders_def Let_def)
next
  case False
  then have "takeWhile (\<lambda>c. c \<noteq> CHR ''|'') (trim raw) = trim raw"
    by (auto simp: takeWhile_eq_all_conv)
  moreover have "purl (parseUrlWithHeaders dec raw) = trim raw"
    using False by (simp add: parseUrlWithHeaders_def Let_def)
  ultimately show ?thesis by (simp only: trim_idem)
qed

lemma processPair_empty: "processPair dec h [] = h"
  by (simp add: processPair_def pairKeyValue_def trim_def)

lemma parse_headers:
  "pheaders (parseUrlWithHeaders dec raw) =
     (if CHR ''|'' \<in> set (trim raw)
      then foldl (processPair dec) noHeaders
             (splitOn (CHR ''&'') (trim (tl (dropWhile (\<lambda>c. c \<noteq> CHR ''|'') (trim raw)))))
      else noHeaders)"
  by (auto simp: parseUrlWithHeaders_def Let_def processPair_empty)

lemma takeWhile_no_sep: "d \<notin> set (takeWhile (\<lambda>c. c \<noteq> d) s)"
  by (metis (mono_tags, lifting) set_takeWhileD)

lemma noHeaders_clean: "cleanHeaders noHeaders"
  by (simp add: cleanHeaders_def cleanValue_def noHeaders_def)

lemma assignHeader_recognised:
  "k \<in> set recognisedKeys \<Longrightarrow>
     Some v \<in> {hReferer (assignHeader h k v), hUserAgent (assignHeader h k v),
               hOrigin (assignHeader h k v), hCookie (assignHeader h k v),
               hAuthorization (assignHeader h k v)}"
  by (auto simp: assignHeader_def recognisedKeys_def)

text \<open>
  Claim C9, as amended. The parser trims the input and splits it at the first bar; the
  URL is the trimmed part before the bar and contains no bar. The headers come from
  folding the pairs of the trimmed part after the bar, split at every ampersand. A pair
  contributes only if it has an equals sign; its key is the part before the first equals
  sign, trimmed and lower-cased, and its value is the rest, trimmed, percent-decoded
  where the decoder succeeds (left as it is where the decoder throws), with every run
  of CR and LF replaced by a space and trimmed again, so a stored value is never empty
  and holds no CR or LF. A key outside referer, referrer, user-agent, useragent, ua,
  origin, cookie and authorization changes nothing; a key among them stores the value.
  The function is pure: it reads and writes no state.
\<close>

theorem parseUrlWithHeaders_directive:
  "purl (parseUrlWithHeaders dec raw) = trim (takeWhile (\<lambda>c. c \<noteq> CHR ''|'') (trim raw))
   \<and> CHR ''|'' \<notin> set (purl (parseUrlWithHeaders dec raw))
   \<and> pheaders (parseUrlWithHeaders dec raw) =
       (if CHR ''|'' \<in> set (trim raw)
        then foldl (processPair dec) noHeaders
               (splitOn (CHR ''&'') (trim (tl (dropWhile (\<lambda>c. c \<noteq> CHR ''|'') (trim raw)))))
        else noHeaders)
   \<and> (\<forall>pair k v. pairKeyValue dec pair = Some (k, v) \<longrightarrow>
          CHR ''='' \<in> set (trim pair)
        \<and> k = toLowerCase (trim (takeWhile (\<lambda>c. c \<noteq> CHR ''='') (trim pair)))
        \<and> v = sanitizeHeaderValue
               (let rawValue = trim (tl (dropWhile (\<lambda>c. c \<noteq> CHR ''='') (trim pair)))
                in case dec rawValue of Some x \<Rightarrow> x | None \<Rightarrow> rawValue)
        \<and> v \<noteq> [] \<and> CHR 0x0D \<notin> set v \<and> CHR 0x0A \<notin> set v)
   \<and> (\<forall>h k v. k \<notin> set recognisedKeys \<longrightarrow> assignHeader h k v = h)
   \<and> (\<forall>h k v. k \<in> set recognisedKeys \<longrightarrow>
          Some v \<in> {hReferer (assignHeader h k v), hUserAgent (assignHeader h k v),
                    hOrigin (assignHeader h k v), hCookie (assignHeader h k v),
                    hAuthorization (assignHeader h k v)})
   \<and> cleanHeaders (pheaders (parseUrlWithHeaders dec raw))"
proof -
  have u: "purl (parseUrlWithHeaders dec raw) = trim (takeWhile (\<lambda>c. c \<noteq> CHR ''|'') (trim raw))"
    by (rule parse_url)
  have nb: "CHR ''|'' \<notin> set (purl (parseUrlWithHeaders dec raw))"
    using set_trim_subset[of "takeWhile (\<lambda>c. c \<noteq> CHR ''|'') (trim raw)"]
      takeWhile_no_sep[of "CHR ''|''" "trim raw"]
    unfolding u by blast
  have hs: "pheaders (parseUrlWithHeaders dec raw) =
       (if CHR ''|'' \<in> set (trim raw)
        then foldl (processPair dec) noHeaders
               (splitOn (CHR ''&'') (trim (tl (dropWhile (\<lambda>c. c \<noteq> CHR ''|'') (trim raw)))))
        else noHeaders)"
    by (rule parse_headers)
  have cl: "cleanHeaders (pheaders (parseUrlWithHeaders dec raw))"
    unfolding hs using foldl_processPair_clean[OF noHeaders_clean] noHeaders_clean by simp
  have pk: "\<forall>pair k v. pairKeyValue dec pair = Some (k, v) \<longrightarrow>
          CHR ''='' \<in> set (trim pair)
        \<and> k = toLowerCase (trim (takeWhile (\<lambda>c. c \<noteq> CHR ''='') (trim pair)))
        \<and> v = sanitizeHeaderValue
               (let rawValue = trim (tl (dropWhile (\<lambda>c. c \<noteq> CHR ''='') (trim pair)))
                in case dec rawValue of Some x \<Rightarrow> x | None \<Rightarrow> rawValue)
        \<and> v \<noteq> [] \<and> CHR 0x0D \<notin> set v \<and> CHR 0x0A \<notin> set v"
    using pairKeyValue_Some sanitize_clean by blast
  show ?thesis
    using u nb hs cl pk assignHeader_unrecognised assignHeader_recognised by blast
qed

theorem parseUrlWithHeaders_directive_witness:
  "pairKeyValue plainDecode ''Referer=https://ex.com'' = Some (''referer'', ''https://ex.com'')
   \<and> CHR 0x0D \<notin> set ''https://ex.com''
   \<and> ''x'' \<notin> set recognisedKeys \<and> assignHeader noHeaders ''x'' ''1'' = noHeaders
   \<and> purl (parseUrlWithHeaders plainDecode ''http://a/v.m3u8|Referer=https://ex.com&x=1'')
       = ''http://a/v.m3u8''
   \<and> hReferer (pheaders (parseUrlWithHeaders plainDecode
          ''http://a/v.m3u8|Referer=https://ex.com&x=1'')) = Some ''https://ex.com''"
proof -
  note t = parseUrlWithHeaders_directive[of plainDecode "''http://a/v.m3u8|Referer=https://ex.com&x=1''"]
  have p: "pairKeyValue plainDecode ''Referer=https://ex.com'' = Some (''referer'', ''https://ex.com'')"
    by code_simp
  have x: "''x'' \<notin> set recognisedKeys" by (simp add: recognisedKeys_def)
  have a: "assignHeader noHeaders ''x'' ''1'' = noHeaders" using t x by blast
  have c: "CHR 0x0D \<notin> set ''https://ex.com''" using t p by blast
  have u: "purl (parseUrlWithHeaders plainDecode ''http://a/v.m3u8|Referer=https://ex.com&x=1'')
       = ''http://a/v.m3u8''" by code_simp
  have r: "hReferer (pheaders (parseUrlWithHeaders plainDecode
          ''http://a/v.m3u8|Referer=https://ex.com&x=1'')) = Some ''https://ex.com''" by code_simp
  show ?thesis using p c x a u r by blast
qed

text \<open>The key \<open>useragent\<close> is not among the keys the specification lists, and the parser
  stores its value as the User-Agent header.\<close>

theorem parseUrlWithHeaders_useragent_counterexample:
  "''useragent'' \<notin> set specRecognisedKeys
   \<and> hUserAgent (pheaders (parseUrlWithHeaders plainDecode ''http://a/v.m3u8|useragent=X''))
       = Some ''X''"
proof -
  have "''useragent'' \<notin> set specRecognisedKeys" by (simp add: specRecognisedKeys_def)
  moreover have "hUserAgent (pheaders (parseUrlWithHeaders plainDecode
      ''http://a/v.m3u8|useragent=X'')) = Some ''X''" by code_simp
  ultimately show ?thesis by blast
qed

subsection \<open>Segment fetcher pool: local names\<close>




































subsection \<open>Segment fetcher pool: the init map line of the manifest\<close>

text \<open>
  Claim C10, where it fails. The playlist \<open>mapXuri\<close> has the end marker, six segments and
  the line \<open>#EXT-X-MAP:XURI="a",URI="init.jpg"\<close>. The pool engages; the init map, of URL
  \<open>https://cdn.example/v/init.jpg\<close>, gets the local path \<open>maps/init_1.ts\<close>. In the manifest
  the pool writes, the map line is \<open>#EXT-X-MAP:XURI="maps/init_1.ts",URI="init.jpg"\<close>: the
  pattern \<open>/URI="[^"]*"/i\<close> of \<open>replaceUriAttribute\<close> matches inside \<open>XURI="a"\<close>, so the
  line's \<open>URI\<close> attribute still is \<open>init.jpg\<close>, a name with an image extension. Without
  the attribute \<open>XURI\<close> the line becomes \<open>#EXT-X-MAP:URI="maps/init_1.ts"\<close>.
\<close>

theorem manifest_keeps_image_uri:
  "map (\<lambda>e. (lineIndex e, resolved e, localPath e))
       (maps (the (planDownload exampleApi mapXuri ''https://cdn.example/v/index.m3u8'')))
     = [(1, ''https://cdn.example/v/init.jpg'', ''maps/init_1.ts'')]
   \<and> splitLines mapXuri ! 1
       = ''#EXT-X-MAP:XURI='' @ [CHR 0x22] @ ''a'' @ [CHR 0x22]
           @ '',URI='' @ [CHR 0x22] @ ''init.jpg'' @ [CHR 0x22]
   \<and> rewriteManifest (the (planDownload exampleApi mapXuri ''https://cdn.example/v/index.m3u8''))
         (splitLines mapXuri) ! 1
       = ''#EXT-X-MAP:XURI='' @ [CHR 0x22] @ ''maps/init_1.ts'' @ [CHR 0x22]
           @ '',URI='' @ [CHR 0x22] @ ''init.jpg'' @ [CHR 0x22]
   \<and> parseAttributeList
         (rewriteManifest (the (planDownload exampleApi mapXuri ''https://cdn.example/v/index.m3u8''))
            (splitLines mapXuri) ! 1) ''URI'' = Some ''init.jpg''
   \<and> endsWithInvalidExtension ''init.jpg''
   \<and> (\<exists>pl. downloadHlsSegmentsParallel exampleApi defaultEnv alwaysSaved (\<lambda>p. False) firstInFlight
              (\<lambda>k. False) mapXuri ''https://cdn.example/v/index.m3u8'' ''/tmp/job'' = Engaged pl
          \<and> segmentCount pl = 6
          \<and> splitLines (playlistText pl) ! 1
              = ''#EXT-X-MAP:XURI='' @ [CHR 0x22] @ ''maps/init_1.ts'' @ [CHR 0x22]
                  @ '',URI='' @ [CHR 0x22] @ ''init.jpg'' @ [CHR 0x22])
   \<and> rewriteManifest (the (planDownload exampleApi mapPlain ''https://cdn.example/v/index.m3u8''))
         (splitLines mapPlain) ! 1
       = ''#EXT-X-MAP:URI='' @ [CHR 0x22] @ ''maps/init_1.ts'' @ [CHR 0x22]"
proof -
  let ?p = "the (planDownload exampleApi mapXuri ''https://cdn.example/v/index.m3u8'')"
  have 1: "map (\<lambda>e. (lineIndex e, resolved e, localPath e)) (maps ?p)
     = [(1, ''https://cdn.example/v/init.jpg'', ''maps/init_1.ts'')]" by code_simp
  have 2: "splitLines mapXuri ! 1
       = ''#EXT-X-MAP:XURI='' @ [CHR 0x22] @ ''a'' @ [CHR 0x22]
           @ '',URI='' @ [CHR 0x22] @ ''init.jpg'' @ [CHR 0x22]" by code_simp
  have 3: "rewriteManifest ?p (splitLines mapXuri) ! 1
       = ''#EXT-X-MAP:XURI='' @ [CHR 0x22] @ ''maps/init_1.ts'' @ [CHR 0x22]
           @ '',URI='' @ [CHR 0x22] @ ''init.jpg'' @ [CHR 0x22]" by code_simp
  have 4: "parseAttributeList (rewriteManifest ?p (splitLines mapXuri) ! 1) ''URI''
       = Some ''init.jpg''" by code_simp
  have 5: "endsWithInvalidExtension ''init.jpg''" by code_simp
  have 6: "downloadHlsSegmentsParallel exampleApi defaultEnv alwaysSaved (\<lambda>p. False) firstInFlight
              (\<lambda>k. False) mapXuri ''https://cdn.example/v/index.m3u8'' ''/tmp/job''
        = Engaged \<lparr>playlistPath = ''/tmp/job/playlist-local.m3u8'',
                   playlistText = joinWith [CHR 0x0A] (rewriteManifest ?p (splitLines mapXuri)),
                   segmentCount = 6\<rparr>" by code_simp
  have 7: "splitLines (joinWith [CHR 0x0A] (rewriteManifest ?p (splitLines mapXuri))) ! 1
              = ''#EXT-X-MAP:XURI='' @ [CHR 0x22] @ ''maps/init_1.ts'' @ [CHR 0x22]
                  @ '',URI='' @ [CHR 0x22] @ ''init.jpg'' @ [CHR 0x22]" by code_simp
  have 8: "rewriteManifest (the (planDownload exampleApi mapPlain ''https://cdn.example/v/index.m3u8''))
         (splitLines mapPlain) ! 1
       = ''#EXT-X-MAP:URI='' @ [CHR 0x22] @ ''maps/init_1.ts'' @ [CHR 0x22]" by code_simp
  show ?thesis using 1 2 3 4 5 6 7 8 by simp
qed

end
